theory Spec2Isabelle
  imports Main "HOL-Library.AList"
begin

section \<open>The real-time room gateway (MessageGateway)\<close>

text \<open>
  The gateway class of \<^verbatim>\<open>src/unnamed/part_001\<close> keeps one private field,
  \<^verbatim>\<open>roomMembers: Map<string, Set<string>>\<close>, and works on three things owned by
  the socket library: the data object of every socket (\<^verbatim>\<open>client.data\<close>), the groups a
  socket has joined (\<^verbatim>\<open>client.join\<close>, \<^verbatim>\<open>client.leave\<close>) and the set of live
  sockets (\<^verbatim>\<open>client.disconnect\<close>). All four are fields of the state record below.
  A JavaScript \<^verbatim>\<open>Map\<close> and \<^verbatim>\<open>Set\<close> iterate in insertion order, so both are
  lists here: a map is an association list updated in place (a new key goes to the end),
  a set is a list without repetition.

  Where a handler waits. \<^verbatim>\<open>client.join\<close> and \<^verbatim>\<open>client.leave\<close> act on the
  adapter in memory and \<^verbatim>\<open>jwtService.verify\<close> computes its answer at once: their
  \<^verbatim>\<open>await\<close> is taken as immediate. An \<^verbatim>\<open>await\<close> of the persistence service is a
  real suspension, during which other commands are handled.
  \<^verbatim>\<open>handleSendMessage\<close>, \<^verbatim>\<open>handleUpdateMessage\<close> and \<^verbatim>\<open>handleDeleteMessage\<close>
  read only \<^verbatim>\<open>client.data\<close> before they wait and never change the state, so the state
  they are given is the state at the moment the service has answered.
  \<^verbatim>\<open>handleJoinRoom\<close> writes the table before it waits and reads it again afterwards: it
  is given in two halves, with the commands handled in between as a parameter.
\<close>

subsection \<open>Data\<close>

type_synonym conn = string
type_synonym userId = string
type_synonym roomId = string

text \<open>
  The names of the broadcast groups are the template strings \<^verbatim>\<open>`user:${payload.sub}`\<close>
  and \<^verbatim>\<open>`room:${roomId}`\<close>. The two prefixes differ, so a group name is one of two cases.
\<close>

datatype group = UserGroup userId | RoomGroup roomId

text \<open>
  Modelled from the spec: the Message entity is declared outside \<^verbatim>\<open>src/\<close>. The
  specification names its identifier, room identifier, author identifier and content; the
  gateway reads \<^verbatim>\<open>roomId\<close> only.
\<close>

record message =
  msg_id :: string
  msg_roomId :: roomId
  msg_userId :: userId
  msg_content :: string

text \<open>\<^verbatim>\<open>interface CreateMessageDto { content: string; roomId: string }\<close>\<close>

record CreateMessageDto =
  dto_content :: string
  dto_roomId :: roomId

text \<open>
  What a rejected call throws: a value that is \<^verbatim>\<open>instanceof Error\<close>, with its message,
  or anything else.
\<close>

datatype thrown = Error string | NonError

text \<open>
  Reading \<^verbatim>\<open>client.data.user.sub\<close> on a socket whose data has no \<^verbatim>\<open>user\<close> throws
  a TypeError, which is an \<^verbatim>\<open>Error\<close>.
\<close>

definition typeError :: thrown where
  "typeError = Error (''Cannot read properties of undefined (reading '' @ [CHR 0x27] @ ''sub'' @ [CHR 0x27] @ '')'')"

datatype event =
    MessageHistory "message list"
  | RoomMembers "userId list"
  | UserJoined userId roomId
  | UserLeft userId roomId
  | NewMessage message
  | MessageUpdated message
  | MessageDeleted string roomId

datatype target = ToClient conn | ToGroup group

text \<open>
  One call of \<^verbatim>\<open>emit\<close>: where it was addressed, what it carried, and the sockets that
  were in the addressed group at that moment, which are the ones that receive it.
\<close>

datatype emission = Emission (target: target) (event: event) (receivers: "conn list")

text \<open>
  What a handler returns to its caller: \<^verbatim>\<open>undefined\<close> (joinRoom, leaveRoom),
  \<^verbatim>\<open>{ success: true }\<close>, \<^verbatim>\<open>{ success: true, message }\<close>,
  \<^verbatim>\<open>{ success: true, members }\<close> or \<^verbatim>\<open>{ success: false, error }\<close>.
  A handler that lets an exception escape has the result \<open>Inl\<close> of what was thrown.
\<close>

datatype reply =
    Void
  | Success
  | SuccessMessage message
  | SuccessMembers "userId list"
  | Failure string

record gateway =
  roomMembers :: "(roomId \<times> userId list) list"
  adapter :: "(conn \<times> group) list"
  clientData :: "(conn \<times> userId) list"
  connected :: "conn list"

definition init :: gateway where
  "init = \<lparr>roomMembers = [], adapter = [], clientData = [], connected = []\<rparr>"

text \<open>
  The collaborators injected into the gateway (\<^verbatim>\<open>JwtService\<close>, \<^verbatim>\<open>MessageService\<close>)
  are not part of the gateway: each handler takes their answers as a parameter.
\<close>

record collaborators =
  jwt_verify :: "string \<Rightarrow> thrown + userId"
  ms_findAllByRoom :: "roomId \<Rightarrow> userId \<Rightarrow> thrown + message list"
  ms_create :: "userId \<Rightarrow> CreateMessageDto \<Rightarrow> thrown + message"
  ms_update :: "string \<Rightarrow> userId \<Rightarrow> string \<Rightarrow> thrown + message"
  ms_findOne :: "string \<Rightarrow> userId \<Rightarrow> thrown + message"
  ms_remove :: "string \<Rightarrow> userId \<Rightarrow> thrown + unit"

subsection \<open>The socket library\<close>

definition client_join :: "conn \<Rightarrow> group \<Rightarrow> gateway \<Rightarrow> gateway" where
  "client_join c g s =
     s\<lparr>adapter := (if (c, g) \<in> set (adapter s) then adapter s else adapter s @ [(c, g)])\<rparr>"

definition client_leave :: "conn \<Rightarrow> group \<Rightarrow> gateway \<Rightarrow> gateway" where
  "client_leave c g s = s\<lparr>adapter := removeAll (c, g) (adapter s)\<rparr>"

text \<open>
  \<^verbatim>\<open>client.disconnect()\<close> closes the socket: it leaves every group and is no longer a
  live socket.
\<close>

definition client_disconnect :: "conn \<Rightarrow> gateway \<Rightarrow> gateway" where
  "client_disconnect c s =
     s\<lparr>adapter := filter (\<lambda>p. fst p \<noteq> c) (adapter s),
       connected := removeAll c (connected s)\<rparr>"

definition in_group :: "group \<Rightarrow> gateway \<Rightarrow> conn list" where
  "in_group g s = map fst (filter (\<lambda>p. snd p = g) (adapter s))"

text \<open>\<^verbatim>\<open>this.server.to(group).emit(name, payload)\<close> and \<^verbatim>\<open>client.emit(name, payload)\<close>\<close>

definition server_emit :: "group \<Rightarrow> event \<Rightarrow> gateway \<Rightarrow> emission" where
  "server_emit g ev s = Emission (ToGroup g) ev (in_group g s)"

definition client_emit :: "conn \<Rightarrow> event \<Rightarrow> emission" where
  "client_emit c ev = Emission (ToClient c) ev [c]"

text \<open>\<^verbatim>\<open>client.data.user.sub\<close>, when the data has a user\<close>

definition user_sub :: "gateway \<Rightarrow> conn \<Rightarrow> userId option" where
  "user_sub s c = map_of (clientData s) c"

subsection \<open>Sets and maps of the membership table\<close>

definition set_add :: "'a \<Rightarrow> 'a list \<Rightarrow> 'a list" where
  "set_add x xs = (if x \<in> set xs then xs else xs @ [x])"

definition set_delete :: "'a \<Rightarrow> 'a list \<Rightarrow> 'a list" where
  "set_delete x xs = removeAll x xs"

text \<open>\<^verbatim>\<open>Array.from(this.roomMembers.get(roomId) || [])\<close>\<close>

definition membersOf :: "gateway \<Rightarrow> roomId \<Rightarrow> userId list" where
  "membersOf s r = (case map_of (roomMembers s) r of None \<Rightarrow> [] | Some ms \<Rightarrow> ms)"

definition has_room :: "gateway \<Rightarrow> roomId \<Rightarrow> bool" where
  "has_room s r = (map_of (roomMembers s) r \<noteq> None)"

subsection \<open>The handlers\<close>

text \<open>
  \<^verbatim>\<open>handleConnection\<close>: an absent or empty token is falsy and ends the connection; a
  token that \<^verbatim>\<open>jwtService.verify\<close> rejects reaches the \<^verbatim>\<open>catch\<close>, which ends the
  connection too. Otherwise the payload is stored on the socket and the socket joins its
  own user group.
\<close>

definition handleConnection :: "collaborators \<Rightarrow> conn \<Rightarrow> string option \<Rightarrow> gateway \<Rightarrow> gateway" where
  "handleConnection env c token s =
     (case token of
        None \<Rightarrow> client_disconnect c s
      | Some t \<Rightarrow>
          if t = [] then client_disconnect c s
          else (case jwt_verify env t of
                  Inl e \<Rightarrow> client_disconnect c s
                | Inr sub \<Rightarrow>
                    client_join c (UserGroup sub)
                      (s\<lparr>clientData := AList.update c sub (clientData s)\<rparr>)))"

text \<open>
  The body of \<^verbatim>\<open>this.roomMembers.forEach\<close> in \<^verbatim>\<open>handleDisconnect\<close>, over the
  entries in insertion order: an entry that has the user loses it, and its room's group is
  sent first the new member list, then \<^verbatim>\<open>userLeft\<close>.
\<close>

fun disconnect_rooms ::
  "userId \<Rightarrow> gateway \<Rightarrow> (roomId \<times> userId list) list \<Rightarrow> (roomId \<times> userId list) list \<times> emission list"
where
  "disconnect_rooms u s [] = ([], [])"
| "disconnect_rooms u s ((r, ms) # rest) =
     (let (rest', evs) = disconnect_rooms u s rest in
      if u \<in> set ms
      then ((r, set_delete u ms) # rest',
            server_emit (RoomGroup r) (RoomMembers (set_delete u ms)) s
              # server_emit (RoomGroup r) (UserLeft u r) s # evs)
      else ((r, ms) # rest', evs))"

text \<open>
  \<^verbatim>\<open>handleDisconnect\<close>: \<^verbatim>\<open>client.data?.user?.sub\<close> is undefined on a socket without
  identity, and \<^verbatim>\<open>if (userId)\<close> is false for it and for the empty string.
\<close>

definition handleDisconnect :: "conn \<Rightarrow> gateway \<Rightarrow> gateway \<times> emission list" where
  "handleDisconnect c s =
     (case user_sub s c of
        None \<Rightarrow> (s, [])
      | Some u \<Rightarrow>
          if u = [] then (s, [])
          else (let (rm, evs) = disconnect_rooms u s (roomMembers s)
                in (s\<lparr>roomMembers := rm\<rparr>, evs)))"

text \<open>
  \<^verbatim>\<open>handleJoinRoom\<close>, up to the call of \<^verbatim>\<open>findAllByRoom\<close>: the socket joins the
  room's group, the user id is read from the socket, and the user is added to the table,
  whose entry is made when the room has none. The result is the state so written and the
  user id the rest of the handler keeps in a local constant.
\<close>

definition handleJoinRoom_before_await ::
  "conn \<Rightarrow> roomId \<Rightarrow> gateway \<Rightarrow> gateway \<times> (thrown + userId)"
where
  "handleJoinRoom_before_await c r s =
     (let s1 = client_join c (RoomGroup r) s in
      case user_sub s1 c of
        None \<Rightarrow> (s1, Inl typeError)
      | Some u \<Rightarrow>
          let s2 = (if \<not> has_room s1 r
                    then s1\<lparr>roomMembers := AList.update r [] (roomMembers s1)\<rparr> else s1);
              s3 = (case map_of (roomMembers s2) r of
                      None \<Rightarrow> s2
                    | Some ms \<Rightarrow> s2\<lparr>roomMembers := AList.update r (set_add u ms) (roomMembers s2)\<rparr>)
          in (s3, Inr u))"

text \<open>
  \<^verbatim>\<open>handleJoinRoom\<close>, from the answer of \<^verbatim>\<open>findAllByRoom\<close> on, in the state the
  gateway is in when the answer arrives. The handler has no \<^verbatim>\<open>try\<close>: what the service
  throws leaves the handler. Otherwise the history goes to the joining socket, and the
  member set and the group are read now, from this state, for the two broadcasts. This
  half changes nothing in the state.
\<close>

definition handleJoinRoom_after_await ::
  "conn \<Rightarrow> roomId \<Rightarrow> userId \<Rightarrow> thrown + message list \<Rightarrow> gateway \<Rightarrow> emission list \<times> (thrown + reply)"
where
  "handleJoinRoom_after_await c r u answer s =
     (case answer of
        Inl e \<Rightarrow> ([], Inl e)
      | Inr messages \<Rightarrow>
          ([client_emit c (MessageHistory messages),
            server_emit (RoomGroup r) (RoomMembers (membersOf s r)) s,
            server_emit (RoomGroup r) (UserJoined u r) s],
           Inr Void))"

text \<open>
  \<^verbatim>\<open>handleJoinRoom\<close> when no other command is handled while it waits: the second half
  runs in the state the first half left. This is the join of a trace; since the second half
  writes nothing, the state it returns is the state the handler leaves behind under every
  interleaving.
\<close>

definition handleJoinRoom ::
  "collaborators \<Rightarrow> conn \<Rightarrow> roomId \<Rightarrow> gateway \<Rightarrow> gateway \<times> emission list \<times> (thrown + reply)"
where
  "handleJoinRoom env c r s =
     (case handleJoinRoom_before_await c r s of
        (s1, Inl e) \<Rightarrow> (s1, [], Inl e)
      | (s1, Inr u) \<Rightarrow>
          (s1, handleJoinRoom_after_await c r u (ms_findAllByRoom env r u) s1))"

definition handleLeaveRoom ::
  "conn \<Rightarrow> roomId \<Rightarrow> gateway \<Rightarrow> gateway \<times> emission list \<times> (thrown + reply)"
where
  "handleLeaveRoom c r s =
     (let s1 = client_leave c (RoomGroup r) s in
      case user_sub s1 c of
        None \<Rightarrow> (s1, [], Inl typeError)
      | Some u \<Rightarrow>
          let s2 = (case map_of (roomMembers s1) r of
                      None \<Rightarrow> s1
                    | Some ms \<Rightarrow> s1\<lparr>roomMembers := AList.update r (set_delete u ms) (roomMembers s1)\<rparr>);
              evs1 = (if has_room s1 r
                      then [server_emit (RoomGroup r) (RoomMembers (membersOf s2 r)) s2] else [])
          in (s2, evs1 @ [server_emit (RoomGroup r) (UserLeft u r) s2], Inr Void))"

text \<open>
  The \<^verbatim>\<open>catch\<close> block shared by the four handlers that have one.
\<close>

definition error_text :: "thrown \<Rightarrow> string" where
  "error_text e = (case e of Error m \<Rightarrow> m | NonError \<Rightarrow> ''An unknown error occurred'')"

definition caught :: "thrown \<Rightarrow> reply" where
  "caught e = Failure (error_text e)"

definition handleSendMessage ::
  "collaborators \<Rightarrow> conn \<Rightarrow> CreateMessageDto \<Rightarrow> gateway \<Rightarrow> gateway \<times> emission list \<times> (thrown + reply)"
where
  "handleSendMessage env c createMessageDto s =
     (case user_sub s c of
        None \<Rightarrow> (s, [], Inr (caught typeError))
      | Some u \<Rightarrow>
          (case ms_create env u createMessageDto of
             Inl e \<Rightarrow> (s, [], Inr (caught e))
           | Inr m \<Rightarrow>
               (s, [server_emit (RoomGroup (dto_roomId createMessageDto)) (NewMessage m) s],
                Inr (SuccessMessage m))))"

definition handleUpdateMessage ::
  "collaborators \<Rightarrow> conn \<Rightarrow> string \<Rightarrow> string \<Rightarrow> gateway \<Rightarrow> gateway \<times> emission list \<times> (thrown + reply)"
where
  "handleUpdateMessage env c ident content s =
     (case user_sub s c of
        None \<Rightarrow> (s, [], Inr (caught typeError))
      | Some u \<Rightarrow>
          (case ms_update env ident u content of
             Inl e \<Rightarrow> (s, [], Inr (caught e))
           | Inr m \<Rightarrow>
               (s, [server_emit (RoomGroup (msg_roomId m)) (MessageUpdated m) s],
                Inr (SuccessMessage m))))"

definition handleDeleteMessage ::
  "collaborators \<Rightarrow> conn \<Rightarrow> string \<Rightarrow> gateway \<Rightarrow> gateway \<times> emission list \<times> (thrown + reply)"
where
  "handleDeleteMessage env c messageId s =
     (case user_sub s c of
        None \<Rightarrow> (s, [], Inr (caught typeError))
      | Some u \<Rightarrow>
          (case ms_findOne env messageId u of
             Inl e \<Rightarrow> (s, [], Inr (caught e))
           | Inr m \<Rightarrow>
               (case ms_remove env messageId u of
                  Inl e \<Rightarrow> (s, [], Inr (caught e))
                | Inr _ \<Rightarrow>
                    (s, [server_emit (RoomGroup (msg_roomId m)) (MessageDeleted messageId (msg_roomId m)) s],
                     Inr Success))))"

definition handleGetRoomMembers ::
  "conn \<Rightarrow> roomId \<Rightarrow> gateway \<Rightarrow> gateway \<times> emission list \<times> (thrown + reply)"
where
  "handleGetRoomMembers c r s =
     (let members = (if has_room s r then membersOf s r else [])
      in (s, [client_emit c (RoomMembers members)], Inr (SuccessMembers members)))"

subsection \<open>Traces\<close>

text \<open>
  What reaches the gateway from outside: a socket opens with the token of its handshake, a
  socket closes, or a live socket sends one of the six commands. A new socket object has
  empty data and is in no group; a closed socket has left every group before
  \<^verbatim>\<open>handleDisconnect\<close> runs; a socket that is not live sends nothing.
\<close>

datatype command =
    Connect conn "string option"
  | Disconnect conn
  | JoinRoom conn roomId
  | LeaveRoom conn roomId
  | SendMessage conn CreateMessageDto
  | UpdateMessage conn string string
  | DeleteMessage conn string
  | GetRoomMembers conn roomId

fun step :: "collaborators \<Rightarrow> command \<Rightarrow> gateway \<Rightarrow> gateway \<times> emission list" where
  "step env (Connect c token) s =
     (if c \<in> set (connected s) then (s, [])
      else (handleConnection env c token
              (s\<lparr>connected := connected s @ [c],
                 clientData := AList.delete c (clientData s),
                 adapter := filter (\<lambda>p. fst p \<noteq> c) (adapter s)\<rparr>), []))"
| "step env (Disconnect c) s =
     (if c \<in> set (connected s) then handleDisconnect c (client_disconnect c s) else (s, []))"
| "step env (JoinRoom c r) s =
     (if c \<in> set (connected s)
      then (case handleJoinRoom env c r s of (s', evs, _) \<Rightarrow> (s', evs)) else (s, []))"
| "step env (LeaveRoom c r) s =
     (if c \<in> set (connected s)
      then (case handleLeaveRoom c r s of (s', evs, _) \<Rightarrow> (s', evs)) else (s, []))"
| "step env (SendMessage c dto) s =
     (if c \<in> set (connected s)
      then (case handleSendMessage env c dto s of (s', evs, _) \<Rightarrow> (s', evs)) else (s, []))"
| "step env (UpdateMessage c ident content) s =
     (if c \<in> set (connected s)
      then (case handleUpdateMessage env c ident content s of (s', evs, _) \<Rightarrow> (s', evs)) else (s, []))"
| "step env (DeleteMessage c messageId) s =
     (if c \<in> set (connected s)
      then (case handleDeleteMessage env c messageId s of (s', evs, _) \<Rightarrow> (s', evs)) else (s, []))"
| "step env (GetRoomMembers c r) s =
     (if c \<in> set (connected s)
      then (case handleGetRoomMembers c r s of (s', evs, _) \<Rightarrow> (s', evs)) else (s, []))"

text \<open>
  A trace pairs every command with the collaborators' answers at that moment, so that
  the persistence service may answer differently from one command to the next. A trace
  orders the commands by the moment they write the state. The second half of a join writes
  nothing, so the states a trace reaches are the states of the gateway whatever was handled
  while a join was waiting.
\<close>

fun run :: "(collaborators \<times> command) list \<Rightarrow> gateway \<Rightarrow> gateway" where
  "run [] s = s"
| "run ((env, cmd) # rest) s = run rest (fst (step env cmd s))"

text \<open>
  \<^verbatim>\<open>handleJoinRoom\<close> with the commands that are handled while it waits for
  \<^verbatim>\<open>findAllByRoom\<close>: the first half runs in \<open>s\<close>, then the commands of \<open>during\<close>
  change the state, then the second half runs in the state they left. The emissions returned
  are those of this join alone.
\<close>

definition handleJoinRoom_interleaved ::
  "collaborators \<Rightarrow> conn \<Rightarrow> roomId \<Rightarrow> (collaborators \<times> command) list \<Rightarrow> gateway
     \<Rightarrow> gateway \<times> emission list \<times> (thrown + reply)"
where
  "handleJoinRoom_interleaved env c r during s =
     (case handleJoinRoom_before_await c r s of
        (s1, Inl e) \<Rightarrow> (s1, [], Inl e)
      | (s1, Inr u) \<Rightarrow>
          (run during s1,
           handleJoinRoom_after_await c r u (ms_findAllByRoom env r u) (run during s1)))"

subsection \<open>Observations\<close>

definition is_member :: "gateway \<Rightarrow> userId \<Rightarrow> roomId \<Rightarrow> bool" where
  "is_member s u r = (u \<in> set (membersOf s r))"

text \<open>A socket holds a join for a room while it is in the room's broadcast group.\<close>

definition holds_join :: "gateway \<Rightarrow> conn \<Rightarrow> roomId \<Rightarrow> bool" where
  "holds_join s c r = ((c, RoomGroup r) \<in> set (adapter s))"

definition user_holds_join :: "gateway \<Rightarrow> userId \<Rightarrow> roomId \<Rightarrow> bool" where
  "user_holds_join s u r =
     list_ex (\<lambda>p. snd p = RoomGroup r \<and> user_sub s (fst p) = Some u) (adapter s)"

text \<open>
  The commands of a presence history of user \<open>u\<close> in room \<open>r\<close>: a joinRoom or a
  leaveRoom of that room, sent by a live socket that carries the identity \<open>u\<close>.
\<close>

fun is_join :: "command \<Rightarrow> bool" where
  "is_join (JoinRoom _ _) = True"
| "is_join _ = False"

fun presence_command :: "gateway \<Rightarrow> userId \<Rightarrow> roomId \<Rightarrow> command \<Rightarrow> bool" where
  "presence_command s u r (JoinRoom c r') =
     (r' = r \<and> c \<in> set (connected s) \<and> user_sub s c = Some u)"
| "presence_command s u r (LeaveRoom c r') =
     (r' = r \<and> c \<in> set (connected s) \<and> user_sub s c = Some u)"
| "presence_command s u r _ = False"

text \<open>No member set of the table lists a user twice.\<close>

definition sets_distinct :: "gateway \<Rightarrow> bool" where
  "sets_distinct s = list_all (\<lambda>p. distinct (snd p)) (roomMembers s)"

text \<open>The name under which an event is emitted.\<close>

fun event_name :: "event \<Rightarrow> string" where
  "event_name (MessageHistory _) = ''messageHistory''"
| "event_name (RoomMembers _) = ''roomMembers''"
| "event_name (UserJoined _ _) = ''userJoined''"
| "event_name (UserLeft _ _) = ''userLeft''"
| "event_name (NewMessage _) = ''newMessage''"
| "event_name (MessageUpdated _) = ''messageUpdated''"
| "event_name (MessageDeleted _ _) = ''messageDeleted''"

definition names_of :: "emission list \<Rightarrow> string list" where
  "names_of evs = map (\<lambda>e. event_name (event e)) evs"

text \<open>In a sequence of names, \<open>a\<close> occurs and \<open>b\<close> occurs somewhere after its first occurrence.\<close>

definition emitted_before :: "string \<Rightarrow> string \<Rightarrow> string list \<Rightarrow> bool" where
  "emitted_before a b ns = (b \<in> set (drop 1 (dropWhile (\<lambda>n. n \<noteq> a) ns)))"

text \<open>The emissions of a sequence that a given socket receives.\<close>

definition delivered_to :: "conn \<Rightarrow> emission list \<Rightarrow> emission list" where
  "delivered_to c evs = filter (\<lambda>e. c \<in> set (receivers e)) evs"

text \<open>How many emissions of a sequence carry a given name and address a given room's group.\<close>

definition count_for :: "string \<Rightarrow> roomId \<Rightarrow> emission list \<Rightarrow> nat" where
  "count_for n r evs =
     length (filter (\<lambda>e. target e = ToGroup (RoomGroup r) \<and> event_name (event e) = n) evs)"

definition joined_rooms :: "gateway \<Rightarrow> conn \<Rightarrow> roomId list" where
  "joined_rooms s c =
     concat (map (\<lambda>p. case snd p of RoomGroup r \<Rightarrow> (if fst p = c then [r] else []) | UserGroup _ \<Rightarrow> [])
               (adapter s))"

subsection \<open>Concrete scenarios\<close>

text \<open>
  Collaborators for the examples: a token other than \<open>''bad''\<close> verifies to the user of the
  same name, a room has no history yet, and a created message is returned with its author.
\<close>

definition answers :: collaborators where
  "answers =
     \<lparr>jwt_verify = (\<lambda>t. if t = ''bad'' then Inl (Error ''jwt malformed'') else Inr t),
      ms_findAllByRoom = (\<lambda>r u. Inr []),
      ms_create = (\<lambda>u d. Inr \<lparr>msg_id = ''m1'', msg_roomId = dto_roomId d,
                                  msg_userId = u, msg_content = dto_content d\<rparr>),
      ms_update = (\<lambda>i u t. Inl (Error ''Forbidden'')),
      ms_findOne = (\<lambda>i u. Inl (Error ''Not Found'')),
      ms_remove = (\<lambda>i u. Inl (Error ''Forbidden''))\<rparr>"

text \<open>The same, with a persistence service that refuses every read and every write.\<close>

definition refusing :: collaborators where
  "refusing = answers\<lparr>ms_findAllByRoom := (\<lambda>r u. Inl (Error ''Forbidden'')),
                        ms_create := (\<lambda>u d. Inl (Error ''Forbidden''))\<rparr>"

definition hi_in_A :: CreateMessageDto where
  "hi_in_A = \<lparr>dto_content = ''hi'', dto_roomId = ''A''\<rparr>"

text \<open>One socket of user u1, authenticated, in no room.\<close>

definition one_socket :: gateway where
  "one_socket = run [(answers, Connect ''c1'' (Some ''u1''))] init"

text \<open>Sockets c1 of u1 and c2 of u2, both joined to room A.\<close>

definition two_users :: gateway where
  "two_users =
     run [(answers, Connect ''c1'' (Some ''u1'')), (answers, Connect ''c2'' (Some ''u2'')),
          (answers, JoinRoom ''c1'' ''A''), (answers, JoinRoom ''c2'' ''A'')] init"

text \<open>Sockets c1 of u1 and c2 of u2; only c2 has joined room A.\<close>

definition outsider :: gateway where
  "outsider =
     run [(answers, Connect ''c1'' (Some ''u1'')), (answers, Connect ''c2'' (Some ''u2'')),
          (answers, JoinRoom ''c2'' ''A'')] init"

text \<open>Two sockets c1 and c2 of the same user u1 join room A, then c2 leaves it.\<close>

definition two_tabs :: "(collaborators \<times> command) list" where
  "two_tabs =
     [(answers, Connect ''c1'' (Some ''u1'')), (answers, Connect ''c2'' (Some ''u1'')),
      (answers, JoinRoom ''c1'' ''A''), (answers, JoinRoom ''c2'' ''A''),
      (answers, LeaveRoom ''c2'' ''A'')]"

text \<open>Two sockets c1 and c2 of the same user u1; only c2 joins room B.\<close>

definition other_tab :: "(collaborators \<times> command) list" where
  "other_tab =
     [(answers, Connect ''c1'' (Some ''u1'')), (answers, Connect ''c2'' (Some ''u1'')),
      (answers, JoinRoom ''c2'' ''B'')]"

text \<open>Two authenticated sockets c1 and c2 of the same user u1, in no room.\<close>

definition two_sockets :: gateway where
  "two_sockets =
     run [(answers, Connect ''c1'' (Some ''u1'')), (answers, Connect ''c2'' (Some ''u1''))] init"

text \<open>
  A presence history of u1 in room A over both sockets; the history of the room cannot be
  read at the second join.
\<close>

definition presence_trace :: "(collaborators \<times> command) list" where
  "presence_trace =
     [(answers, JoinRoom ''c1'' ''A''), (refusing, JoinRoom ''c2'' ''A''),
      (answers, LeaveRoom ''c1'' ''A''), (answers, JoinRoom ''c1'' ''A''),
      (answers, LeaveRoom ''c2'' ''A'')]"

text \<open>
  What is handled while a joinRoom of room A on socket c1 waits for the history: the same
  socket leaves the room again.
\<close>

definition leave_during_fetch :: "(collaborators \<times> command) list" where
  "leave_during_fetch = [(answers, LeaveRoom ''c1'' ''A'')]"

text \<open>The same, where it is socket c2 that leaves room A.\<close>

definition sibling_leaves_during_fetch :: "(collaborators \<times> command) list" where
  "sibling_leaves_during_fetch = [(answers, LeaveRoom ''c2'' ''A'')]"

text \<open>Three handshakes: a token that does not verify, no token, and a good token.\<close>

definition handshakes :: "(collaborators \<times> command) list" where
  "handshakes =
     [(answers, Connect ''c1'' (Some ''bad'')), (answers, Connect ''c2'' None),
      (answers, Connect ''c3'' (Some ''u3''))]"

section \<open>Properties\<close>

subsection \<open>The socket library leaves the rest of the state alone\<close>

lemma user_sub_client_join [simp]: "user_sub (client_join c g s) c' = user_sub s c'"
  by (simp add: user_sub_def client_join_def)

lemma user_sub_client_leave [simp]: "user_sub (client_leave c g s) c' = user_sub s c'"
  by (simp add: user_sub_def client_leave_def)

lemma roomMembers_client_join [simp]: "roomMembers (client_join c g s) = roomMembers s"
  by (simp add: client_join_def)

lemma roomMembers_client_leave [simp]: "roomMembers (client_leave c g s) = roomMembers s"
  by (simp add: client_leave_def)

lemma in_group_iff: "c \<in> set (in_group g s) \<longleftrightarrow> (c, g) \<in> set (adapter s)"
  by (force simp: in_group_def)

lemma in_group_roomMembers_update [simp]: "in_group g (s\<lparr>roomMembers := rm\<rparr>) = in_group g s"
  by (simp add: in_group_def)

lemma in_group_client_join: "in_group g (client_join c g s) = set_add c (in_group g s)"
  by (simp add: client_join_def set_add_def in_group_iff) (simp add: in_group_def)

lemma in_group_removeAll:
  "map fst (filter (\<lambda>p. snd p = g) (removeAll (c, g) ad)) =
   removeAll c (map fst (filter (\<lambda>p. snd p = g) ad))"
  by (induction ad) auto

lemma in_group_client_leave: "in_group g (client_leave c g s) = removeAll c (in_group g s)"
  by (simp add: client_leave_def in_group_def in_group_removeAll)

lemma holds_join_client_leave: "\<not> holds_join (client_leave c (RoomGroup r) s) c r"
  by (simp add: holds_join_def client_leave_def)

lemma client_leave_unjoined: "\<not> holds_join s c r \<Longrightarrow> client_leave c (RoomGroup r) s = s"
  by (simp add: holds_join_def client_leave_def)

subsection \<open>What joinRoom and leaveRoom do to the state and what they emit\<close>

lemma handleJoinRoom_unfold:
  "handleJoinRoom env c r s =
     (let s1 = client_join c (RoomGroup r) s in
      case user_sub s1 c of
        None \<Rightarrow> (s1, [], Inl typeError)
      | Some u \<Rightarrow>
          let s2 = (if \<not> has_room s1 r
                    then s1\<lparr>roomMembers := AList.update r [] (roomMembers s1)\<rparr> else s1);
              s3 = (case map_of (roomMembers s2) r of
                      None \<Rightarrow> s2
                    | Some ms \<Rightarrow> s2\<lparr>roomMembers := AList.update r (set_add u ms) (roomMembers s2)\<rparr>)
          in case ms_findAllByRoom env r u of
               Inl e \<Rightarrow> (s3, [], Inl e)
             | Inr messages \<Rightarrow>
                 (s3,
                  [client_emit c (MessageHistory messages),
                   server_emit (RoomGroup r) (RoomMembers (membersOf s3 r)) s3,
                   server_emit (RoomGroup r) (UserJoined u r) s3],
                  Inr Void))"
  by (simp add: handleJoinRoom_def handleJoinRoom_before_await_def
                handleJoinRoom_after_await_def Let_def
           split: option.splits sum.splits)

lemma join_state:
  assumes "user_sub s c = Some u"
  shows "fst (handleJoinRoom env c r s) =
           (client_join c (RoomGroup r) s)
             \<lparr>roomMembers := AList.update r (set_add u (membersOf s r)) (roomMembers s)\<rparr>"
proof (cases "map_of (roomMembers s) r")
  case None
  then show ?thesis using assms
    by (simp add: handleJoinRoom_unfold Let_def has_room_def membersOf_def update_conv'
             split: sum.splits)
next
  case (Some ms)
  then show ?thesis using assms
    by (simp add: handleJoinRoom_unfold Let_def has_room_def membersOf_def split: sum.splits)
qed


lemma join_raises:
  assumes "user_sub s c = Some u" "ms_findAllByRoom env r u = Inl e"
  shows "snd (handleJoinRoom env c r s) = ([], Inl e)"
  using assms by (simp add: handleJoinRoom_unfold Let_def split: option.splits)

lemma leave_state:
  assumes "user_sub s c = Some u"
  shows "fst (handleLeaveRoom c r s) =
           (client_leave c (RoomGroup r) s)
             \<lparr>roomMembers := (if has_room s r
                               then AList.update r (set_delete u (membersOf s r)) (roomMembers s)
                               else roomMembers s)\<rparr>"
  using assms
  by (cases "map_of (roomMembers s) r")
     (simp_all add: handleLeaveRoom_def Let_def has_room_def membersOf_def)

lemma leave_events:
  assumes "user_sub s c = Some u"
  shows "snd (handleLeaveRoom c r s) =
     ((if has_room s r
       then [server_emit (RoomGroup r) (RoomMembers (set_delete u (membersOf s r)))
               (client_leave c (RoomGroup r) s)]
       else [])
      @ [server_emit (RoomGroup r) (UserLeft u r) (client_leave c (RoomGroup r) s)], Inr Void)"
  using assms
  by (cases "map_of (roomMembers s) r")
     (simp_all add: handleLeaveRoom_def Let_def has_room_def membersOf_def update_conv'
                    server_emit_def in_group_def)

subsection \<open>joinRoom: the membership is written before the history is read\<close>

text \<open>
  Claim C10. A joinRoom command of an authenticated socket adds the user to the room's
  member set, creating the entry when the room has none, whatever the persistence service
  then answers; when the fetch of the history fails, the user stays in the member set, no
  event has been emitted and the failure leaves the handler.
\<close>

theorem join_adds_member_before_history:
  assumes "user_sub s c = Some u"
  shows "roomMembers (fst (handleJoinRoom env c r s)) =
           AList.update r (set_add u (membersOf s r)) (roomMembers s)
       \<and> has_room (fst (handleJoinRoom env c r s)) r
       \<and> is_member (fst (handleJoinRoom env c r s)) u r
       \<and> (\<forall>e. ms_findAllByRoom env r u = Inl e \<longrightarrow>
              snd (handleJoinRoom env c r s) = ([], Inl e))"
  using assms
  by (simp add: join_state join_raises has_room_def is_member_def membersOf_def
                update_conv' set_add_def)

theorem join_adds_member_before_history_witness:
  "user_sub one_socket ''c1'' = Some ''u1''
   \<and> ms_findAllByRoom refusing ''A'' ''u1'' = Inl (Error ''Forbidden'')
   \<and> \<not> is_member one_socket ''u1'' ''A''
   \<and> is_member (fst (handleJoinRoom refusing ''c1'' ''A'' one_socket)) ''u1'' ''A''
   \<and> snd (handleJoinRoom refusing ''c1'' ''A'' one_socket) = ([], Inl (Error ''Forbidden''))"
proof -
  have h: "user_sub one_socket ''c1'' = Some ''u1''" by code_simp
  have f: "ms_findAllByRoom refusing ''A'' ''u1'' = Inl (Error ''Forbidden'')" by code_simp
  have n: "\<not> is_member one_socket ''u1'' ''A''" by code_simp
  show ?thesis
    using h f n join_adds_member_before_history [OF h, of refusing "''A''"] by blast
qed

subsection \<open>leaveRoom on a room the socket has not joined\<close>

text \<open>
  Claim C9. A leaveRoom command of an authenticated socket for a room it has not joined
  does not fail: it returns normally and emits \<open>userLeft {userId, roomId}\<close> to the room's
  group; the \<open>roomMembers\<close> snapshot comes before it exactly when the table has an entry
  for the room.
\<close>

theorem leave_of_unjoined_room_announces:
  assumes "user_sub s c = Some u" and "\<not> holds_join s c r"
  shows "snd (snd (handleLeaveRoom c r s)) = Inr Void
       \<and> fst (snd (handleLeaveRoom c r s)) =
           (if has_room s r
            then [Emission (ToGroup (RoomGroup r)) (RoomMembers (set_delete u (membersOf s r)))
                    (in_group (RoomGroup r) s)]
            else [])
           @ [Emission (ToGroup (RoomGroup r)) (UserLeft u r) (in_group (RoomGroup r) s)]"
  using assms
  by (simp add: leave_events client_leave_unjoined server_emit_def)

theorem leave_of_unjoined_room_announces_witness:
  "user_sub outsider ''c1'' = Some ''u1'' \<and> \<not> holds_join outsider ''c1'' ''A''
   \<and> \<not> holds_join outsider ''c1'' ''B'' \<and> has_room outsider ''A'' \<and> \<not> has_room outsider ''B''
   \<and> handleLeaveRoom ''c1'' ''A'' outsider =
       (fst (handleLeaveRoom ''c1'' ''A'' outsider),
        [Emission (ToGroup (RoomGroup ''A'')) (RoomMembers [''u2'']) [''c2''],
         Emission (ToGroup (RoomGroup ''A'')) (UserLeft ''u1'' ''A'') [''c2'']], Inr Void)
   \<and> handleLeaveRoom ''c1'' ''B'' outsider =
       (fst (handleLeaveRoom ''c1'' ''B'' outsider),
        [Emission (ToGroup (RoomGroup ''B'')) (UserLeft ''u1'' ''B'') []], Inr Void)"
proof -
  have h: "user_sub outsider ''c1'' = Some ''u1''" by code_simp
  have a: "\<not> holds_join outsider ''c1'' ''A''" by code_simp
  have b: "\<not> holds_join outsider ''c1'' ''B''" by code_simp
  have ra: "has_room outsider ''A''" by code_simp
  have rb: "\<not> has_room outsider ''B''" by code_simp
  have ma: "set_delete ''u1'' (membersOf outsider ''A'') = [''u2'']" by code_simp
  have ga: "in_group (RoomGroup ''A'') outsider = [''c2'']" by code_simp
  have gb: "in_group (RoomGroup ''B'') outsider = []" by code_simp
  show ?thesis
    using h a b ra rb leave_of_unjoined_room_announces [OF h a]
      leave_of_unjoined_room_announces [OF h b]
    by (simp add: ma ga gb prod_eq_iff)
qed

subsection \<open>Which handlers keep an error to themselves\<close>

text \<open>
  The four handlers with a \<^verbatim>\<open>try\<close> block return a reply whatever the collaborators
  answer and whatever the socket's data holds, and leave the state as it was.
\<close>

lemma send_never_raises: "\<exists>rep evs. handleSendMessage env c dto s = (s, evs, Inr rep)"
  by (simp add: handleSendMessage_def split: option.splits sum.splits)

lemma update_never_raises: "\<exists>rep evs. handleUpdateMessage env c i t s = (s, evs, Inr rep)"
  by (simp add: handleUpdateMessage_def split: option.splits sum.splits)

lemma delete_never_raises: "\<exists>rep evs. handleDeleteMessage env c i s = (s, evs, Inr rep)"
  by (simp add: handleDeleteMessage_def split: option.splits sum.splits)

lemma getRoomMembers_never_raises: "\<exists>rep evs. handleGetRoomMembers c r s = (s, evs, Inr rep)"
  by (simp add: handleGetRoomMembers_def Let_def)

text \<open>
  Claim C3. The claim asks that every error raised while a command is handled is caught
  inside the handler and turned into a failure result for the caller. \<open>handleJoinRoom\<close>
  has no \<^verbatim>\<open>try\<close> block: for an authenticated socket whose history read is refused,
  the error leaves the handler, where the same refusal in \<open>handleSendMessage\<close> becomes
  the reply \<open>{success: false, error: ''Forbidden''}\<close>.
\<close>

theorem join_lets_persistence_error_escape:
  "user_sub one_socket ''c1'' = Some ''u1''
   \<and> snd (handleJoinRoom refusing ''c1'' ''A'' one_socket) = ([], Inl (Error ''Forbidden''))
   \<and> snd (handleSendMessage refusing ''c1'' hi_in_A one_socket) = ([], Inr (Failure ''Forbidden''))"
  by code_simp

subsection \<open>sendMessage\<close>

text \<open>
  Claim C4, as stated, fails: the socket c1 has not joined room A, the persistence service
  accepts the message, and the handler answers with success and broadcasts \<open>newMessage\<close>
  to the sockets of room A.
\<close>

theorem send_to_unjoined_room_counterexample:
  "\<not> holds_join outsider ''c1'' ''A''
   \<and> snd (handleSendMessage answers ''c1'' hi_in_A outsider) =
       ([Emission (ToGroup (RoomGroup ''A''))
           (NewMessage \<lparr>msg_id = ''m1'', msg_roomId = ''A'', msg_userId = ''u1'', msg_content = ''hi''\<rparr>)
           [''c2'']],
        Inr (SuccessMessage \<lparr>msg_id = ''m1'', msg_roomId = ''A'', msg_userId = ''u1'', msg_content = ''hi''\<rparr>))"
  by code_simp

text \<open>
  Claim C4, amended. \<open>handleSendMessage\<close> does not look at the rooms the sender has
  joined; it hands the sender's user id and the message to the persistence service. When that
  succeeds, exactly one \<open>newMessage\<close> carrying the message the service returned is emitted to
  the room's broadcast group and the reply is a success; when it fails, the reply to the sender
  is a failure with the error's text and nothing is emitted. The state is unchanged in both cases.
\<close>

theorem send_broadcasts_iff_persisted:
  assumes "user_sub s c = Some u"
  shows "(\<forall>m. ms_create env u dto = Inr m \<longrightarrow>
            handleSendMessage env c dto s =
              (s, [Emission (ToGroup (RoomGroup (dto_roomId dto))) (NewMessage m)
                     (in_group (RoomGroup (dto_roomId dto)) s)],
               Inr (SuccessMessage m)))
       \<and> (\<forall>e. ms_create env u dto = Inl e \<longrightarrow>
            handleSendMessage env c dto s = (s, [], Inr (Failure (error_text e))))"
  using assms by (simp add: handleSendMessage_def server_emit_def caught_def)

theorem send_broadcasts_iff_persisted_witness:
  "user_sub two_users ''c1'' = Some ''u1''
   \<and> handleSendMessage answers ''c1'' hi_in_A two_users =
       (two_users,
        [Emission (ToGroup (RoomGroup ''A''))
           (NewMessage \<lparr>msg_id = ''m1'', msg_roomId = ''A'', msg_userId = ''u1'', msg_content = ''hi''\<rparr>)
           [''c1'', ''c2'']],
        Inr (SuccessMessage \<lparr>msg_id = ''m1'', msg_roomId = ''A'', msg_userId = ''u1'', msg_content = ''hi''\<rparr>))
   \<and> handleSendMessage refusing ''c1'' hi_in_A two_users = (two_users, [], Inr (Failure ''Forbidden''))"
proof -
  have h: "user_sub two_users ''c1'' = Some ''u1''" by code_simp
  have ok: "ms_create answers ''u1'' hi_in_A =
      Inr \<lparr>msg_id = ''m1'', msg_roomId = ''A'', msg_userId = ''u1'', msg_content = ''hi''\<rparr>"
    by code_simp
  have no: "ms_create refusing ''u1'' hi_in_A = Inl (Error ''Forbidden'')" by code_simp
  have g: "in_group (RoomGroup ''A'') two_users = [''c1'', ''c2'']" by code_simp
  have r: "dto_roomId hi_in_A = ''A''" by code_simp
  have t: "error_text (Error ''Forbidden'') = ''Forbidden''" by code_simp
  show ?thesis
    using h ok no send_broadcasts_iff_persisted [OF h, of answers hi_in_A]
      send_broadcasts_iff_persisted [OF h, of refusing hi_in_A]
    by (simp add: g r t)
qed

subsection \<open>joinRoom: what is emitted, to whom, in which order\<close>

text \<open>
  The two halves of the handler, for an authenticated socket: the first half is the state
  change of \<open>handleJoinRoom\<close>, and the second half emits from the state that the commands
  handled in between have left.
\<close>

lemma before_await_authenticated:
  assumes "user_sub s c = Some u"
  shows "handleJoinRoom_before_await c r s = (fst (handleJoinRoom env c r s), Inr u)"
  using assms
  by (simp add: handleJoinRoom_def handleJoinRoom_before_await_def Let_def)

lemma interleaved_alone: "handleJoinRoom_interleaved env c r [] s = handleJoinRoom env c r s"
  by (simp add: handleJoinRoom_interleaved_def handleJoinRoom_def split: prod.splits sum.splits)

lemma interleaved_state:
  assumes "user_sub s c = Some u"
  shows "fst (handleJoinRoom_interleaved env c r during s) =
           run during (fst (handleJoinRoom env c r s))"
  by (simp add: handleJoinRoom_interleaved_def before_await_authenticated [OF assms, of r env])

lemma interleaved_events:
  assumes "user_sub s c = Some u" and "ms_findAllByRoom env r u = Inr msgs"
  shows "snd (handleJoinRoom_interleaved env c r during s) =
     ([Emission (ToClient c) (MessageHistory msgs) [c],
       Emission (ToGroup (RoomGroup r))
         (RoomMembers (membersOf (run during (fst (handleJoinRoom env c r s))) r))
         (in_group (RoomGroup r) (run during (fst (handleJoinRoom env c r s)))),
       Emission (ToGroup (RoomGroup r)) (UserJoined u r)
         (in_group (RoomGroup r) (run during (fst (handleJoinRoom env c r s))))], Inr Void)"
  using assms(2)
  by (simp add: handleJoinRoom_interleaved_def before_await_authenticated [OF assms(1), of r env]
                handleJoinRoom_after_await_def client_emit_def server_emit_def)

text \<open>
  Claim C6, as stated, fails: socket c2 is joined to room A and socket c1 joins it, with
  nothing handled in between. The \<open>roomMembers\<close> snapshot is emitted once, it reaches c2
  as well as the joining socket, and \<open>userJoined\<close> comes after it: no refreshed snapshot
  follows \<open>userJoined\<close>.
\<close>

theorem join_order_counterexample:
  "user_sub outsider ''c1'' = Some ''u1''
   \<and> snd (handleJoinRoom_interleaved answers ''c1'' ''A'' [] outsider) =
       ([Emission (ToClient ''c1'') (MessageHistory []) [''c1''],
         Emission (ToGroup (RoomGroup ''A'')) (RoomMembers [''u2'', ''u1'']) [''c2'', ''c1''],
         Emission (ToGroup (RoomGroup ''A'')) (UserJoined ''u1'' ''A'') [''c2'', ''c1'']], Inr Void)
   \<and> \<not> emitted_before ''userJoined'' ''roomMembers''
         (names_of (fst (snd (handleJoinRoom_interleaved answers ''c1'' ''A'' [] outsider))))
   \<and> names_of (delivered_to ''c2''
         (fst (snd (handleJoinRoom_interleaved answers ''c1'' ''A'' [] outsider)))) =
       [''roomMembers'', ''userJoined'']"
  by code_simp

text \<open>
  Claim C6, amended. On a successful joinRoom of an authenticated socket, whatever
  commands are handled while the handler waits for the history: \<open>messageHistory\<close> is
  emitted first, to the joining socket only; then one \<open>roomMembers\<close> snapshot, carrying
  the room's member set as it is when the history has arrived; then \<open>userJoined\<close>, to the
  room's broadcast group as it is at that moment. No snapshot follows \<open>userJoined\<close>, and
  a socket that receives \<open>userJoined\<close> has received the snapshot before it. When nothing
  is handled in between, the snapshot is the member set with the joiner added and the group
  contains the joining socket. (The code addresses the snapshot to the room's group, as the
  first conjunct records; the comment above that line names the joining client.)
\<close>

theorem join_emits_members_then_userJoined:
  assumes "user_sub s c = Some u" and "ms_findAllByRoom env r u = Inr msgs"
  shows "snd (handleJoinRoom_interleaved env c r during s) =
       ([Emission (ToClient c) (MessageHistory msgs) [c],
         Emission (ToGroup (RoomGroup r))
           (RoomMembers (membersOf (fst (handleJoinRoom_interleaved env c r during s)) r))
           (in_group (RoomGroup r) (fst (handleJoinRoom_interleaved env c r during s))),
         Emission (ToGroup (RoomGroup r)) (UserJoined u r)
           (in_group (RoomGroup r) (fst (handleJoinRoom_interleaved env c r during s)))], Inr Void)
     \<and> fst (handleJoinRoom_interleaved env c r during s) =
         run during (fst (handleJoinRoom_interleaved env c r [] s))
     \<and> names_of (fst (snd (handleJoinRoom_interleaved env c r during s))) =
         [''messageHistory'', ''roomMembers'', ''userJoined'']
     \<and> emitted_before ''roomMembers'' ''userJoined''
         (names_of (fst (snd (handleJoinRoom_interleaved env c r during s))))
     \<and> \<not> emitted_before ''userJoined'' ''roomMembers''
         (names_of (fst (snd (handleJoinRoom_interleaved env c r during s))))
     \<and> (\<forall>c'. names_of (delivered_to c' (fst (snd (handleJoinRoom_interleaved env c r during s)))) =
           (if c' = c then [''messageHistory''] else [])
           @ (if c' \<in> set (in_group (RoomGroup r) (fst (handleJoinRoom_interleaved env c r during s)))
              then [''roomMembers'', ''userJoined''] else []))
     \<and> (during = [] \<longrightarrow>
           membersOf (fst (handleJoinRoom_interleaved env c r during s)) r = set_add u (membersOf s r)
         \<and> u \<in> set (membersOf (fst (handleJoinRoom_interleaved env c r during s)) r)
         \<and> in_group (RoomGroup r) (fst (handleJoinRoom_interleaved env c r during s)) =
             set_add c (in_group (RoomGroup r) s)
         \<and> c \<in> set (in_group (RoomGroup r) (fst (handleJoinRoom_interleaved env c r during s))))"
proof -
  let ?s' = "fst (handleJoinRoom_interleaved env c r during s)"
  let ?evs = "fst (snd (handleJoinRoom_interleaved env c r during s))"
  have st: "?s' = run during (fst (handleJoinRoom env c r s))"
    using assms(1) by (rule interleaved_state)
  have evs: "snd (handleJoinRoom_interleaved env c r during s) =
       ([Emission (ToClient c) (MessageHistory msgs) [c],
         Emission (ToGroup (RoomGroup r)) (RoomMembers (membersOf ?s' r)) (in_group (RoomGroup r) ?s'),
         Emission (ToGroup (RoomGroup r)) (UserJoined u r) (in_group (RoomGroup r) ?s')], Inr Void)"
    unfolding st using assms by (rule interleaved_events)
  have st0: "?s' = run during (fst (handleJoinRoom_interleaved env c r [] s))"
    by (simp add: st interleaved_alone)
  have names: "names_of ?evs = [''messageHistory'', ''roomMembers'', ''userJoined'']"
    by (simp add: evs names_of_def)
  have ord: "emitted_before ''roomMembers'' ''userJoined'' (names_of ?evs)"
            "\<not> emitted_before ''userJoined'' ''roomMembers'' (names_of ?evs)"
    by (simp_all add: names emitted_before_def)
  have per: "names_of (delivered_to c' ?evs) =
           (if c' = c then [''messageHistory''] else [])
           @ (if c' \<in> set (in_group (RoomGroup r) ?s') then [''roomMembers'', ''userJoined''] else [])"
    for c'
    by (simp add: evs names_of_def delivered_to_def)
  have alone: "membersOf ?s' r = set_add u (membersOf s r)
         \<and> u \<in> set (membersOf ?s' r)
         \<and> in_group (RoomGroup r) ?s' = set_add c (in_group (RoomGroup r) s)
         \<and> c \<in> set (in_group (RoomGroup r) ?s')" if "during = []"
  proof -
    have s0: "?s' = fst (handleJoinRoom env c r s)"
      using st that by simp
    show ?thesis
      unfolding s0 using assms(1)
      by (simp add: join_state membersOf_def update_conv' in_group_client_join)
         (simp add: set_add_def)
  qed
  show ?thesis
    using evs st0 names ord per alone by blast
qed

theorem join_emits_members_then_userJoined_witness:
  "user_sub outsider ''c1'' = Some ''u1'' \<and> ms_findAllByRoom answers ''A'' ''u1'' = Inr []
   \<and> snd (handleJoinRoom_interleaved answers ''c1'' ''A'' leave_during_fetch outsider) =
       ([Emission (ToClient ''c1'') (MessageHistory []) [''c1''],
         Emission (ToGroup (RoomGroup ''A'')) (RoomMembers [''u2'']) [''c2''],
         Emission (ToGroup (RoomGroup ''A'')) (UserJoined ''u1'' ''A'') [''c2'']], Inr Void)
   \<and> user_sub two_sockets ''c1'' = Some ''u1''
   \<and> snd (handleJoinRoom_interleaved answers ''c1'' ''A'' sibling_leaves_during_fetch two_sockets) =
       ([Emission (ToClient ''c1'') (MessageHistory []) [''c1''],
         Emission (ToGroup (RoomGroup ''A'')) (RoomMembers []) [''c1''],
         Emission (ToGroup (RoomGroup ''A'')) (UserJoined ''u1'' ''A'') [''c1'']], Inr Void)"
proof -
  have h: "user_sub outsider ''c1'' = Some ''u1''" by code_simp
  have h2: "user_sub two_sockets ''c1'' = Some ''u1''" by code_simp
  have f: "ms_findAllByRoom answers ''A'' ''u1'' = Inr []" by code_simp
  have m: "membersOf (fst (handleJoinRoom_interleaved answers ''c1'' ''A'' leave_during_fetch outsider)) ''A''
             = [''u2'']" by code_simp
  have g: "in_group (RoomGroup ''A'')
             (fst (handleJoinRoom_interleaved answers ''c1'' ''A'' leave_during_fetch outsider))
             = [''c2'']" by code_simp
  have m2: "membersOf (fst (handleJoinRoom_interleaved answers ''c1'' ''A''
               sibling_leaves_during_fetch two_sockets)) ''A'' = []" by code_simp
  have g2: "in_group (RoomGroup ''A'')
             (fst (handleJoinRoom_interleaved answers ''c1'' ''A''
               sibling_leaves_during_fetch two_sockets)) = [''c1'']" by code_simp
  have 1: "snd (handleJoinRoom_interleaved answers ''c1'' ''A'' leave_during_fetch outsider) =
       ([Emission (ToClient ''c1'') (MessageHistory []) [''c1''],
         Emission (ToGroup (RoomGroup ''A'')) (RoomMembers [''u2'']) [''c2''],
         Emission (ToGroup (RoomGroup ''A'')) (UserJoined ''u1'' ''A'') [''c2'']], Inr Void)"
    using join_emits_members_then_userJoined [OF h f, of leave_during_fetch, THEN conjunct1]
    by (simp only: m g)
  have 2: "snd (handleJoinRoom_interleaved answers ''c1'' ''A'' sibling_leaves_during_fetch two_sockets) =
       ([Emission (ToClient ''c1'') (MessageHistory []) [''c1''],
         Emission (ToGroup (RoomGroup ''A'')) (RoomMembers []) [''c1''],
         Emission (ToGroup (RoomGroup ''A'')) (UserJoined ''u1'' ''A'') [''c1'']], Inr Void)"
    using join_emits_members_then_userJoined [OF h2 f, of sibling_leaves_during_fetch, THEN conjunct1]
    by (simp only: m2 g2)
  show ?thesis by (intro conjI h f 1 h2 2)
qed

subsection \<open>leaveRoom: who receives the announcement\<close>

text \<open>
  Claim C7, as stated, fails: c1 and c2 are joined to room A and c1 leaves; both events go
  to c2 only, and c1 receives neither its own \<open>userLeft\<close> nor the new member list.
\<close>

theorem leaver_receives_nothing_counterexample:
  "holds_join two_users ''c1'' ''A''
   \<and> fst (snd (handleLeaveRoom ''c1'' ''A'' two_users)) =
       [Emission (ToGroup (RoomGroup ''A'')) (RoomMembers [''u2'']) [''c2''],
        Emission (ToGroup (RoomGroup ''A'')) (UserLeft ''u1'' ''A'') [''c2'']]
   \<and> delivered_to ''c1'' (fst (snd (handleLeaveRoom ''c1'' ''A'' two_users))) = []"
  by code_simp

text \<open>
  Claim C7, amended. A leaveRoom command of an authenticated socket first takes the socket
  out of the room's broadcast group and then emits the refreshed \<open>roomMembers\<close> snapshot
  (when the table has an entry for the room) and \<open>userLeft\<close> to that group: every other
  socket joined to the room receives all of it, and the leaving socket receives none of it.
\<close>

theorem leave_announces_to_remaining_sockets:
  assumes "user_sub s c = Some u"
  shows "\<not> holds_join (fst (handleLeaveRoom c r s)) c r
     \<and> fst (snd (handleLeaveRoom c r s)) =
         (if has_room s r
          then [Emission (ToGroup (RoomGroup r)) (RoomMembers (set_delete u (membersOf s r)))
                  (removeAll c (in_group (RoomGroup r) s))]
          else [])
         @ [Emission (ToGroup (RoomGroup r)) (UserLeft u r) (removeAll c (in_group (RoomGroup r) s))]
     \<and> delivered_to c (fst (snd (handleLeaveRoom c r s))) = []
     \<and> (\<forall>c'. c' \<noteq> c \<and> holds_join s c' r \<longrightarrow>
           delivered_to c' (fst (snd (handleLeaveRoom c r s))) = fst (snd (handleLeaveRoom c r s)))"
proof -
  let ?evs = "fst (snd (handleLeaveRoom c r s))"
  have gone: "\<not> holds_join (fst (handleLeaveRoom c r s)) c r"
    using assms by (simp add: leave_state holds_join_def client_leave_def)
  have evs: "?evs =
         (if has_room s r
          then [Emission (ToGroup (RoomGroup r)) (RoomMembers (set_delete u (membersOf s r)))
                  (removeAll c (in_group (RoomGroup r) s))]
          else [])
         @ [Emission (ToGroup (RoomGroup r)) (UserLeft u r) (removeAll c (in_group (RoomGroup r) s))]"
    using assms by (simp add: leave_events server_emit_def in_group_client_leave)
  have none: "delivered_to c ?evs = []"
    by (simp add: evs delivered_to_def)
  have all: "delivered_to c' ?evs = ?evs" if "c' \<noteq> c \<and> holds_join s c' r" for c'
    using that by (simp add: evs delivered_to_def holds_join_def in_group_iff)
  show ?thesis using gone evs none all by blast
qed

theorem leave_announces_to_remaining_sockets_witness:
  "user_sub two_users ''c1'' = Some ''u1'' \<and> holds_join two_users ''c2'' ''A''
   \<and> \<not> holds_join (fst (handleLeaveRoom ''c1'' ''A'' two_users)) ''c1'' ''A''
   \<and> delivered_to ''c1'' (fst (snd (handleLeaveRoom ''c1'' ''A'' two_users))) = []
   \<and> delivered_to ''c2'' (fst (snd (handleLeaveRoom ''c1'' ''A'' two_users))) =
       fst (snd (handleLeaveRoom ''c1'' ''A'' two_users))"
proof -
  have h: "user_sub two_users ''c1'' = Some ''u1''" by code_simp
  have j: "holds_join two_users ''c2'' ''A''" by code_simp
  have d: "''c2'' \<noteq> ''c1''" by simp
  note T = leave_announces_to_remaining_sockets [OF h, of "''A''"]
  have 1: "\<not> holds_join (fst (handleLeaveRoom ''c1'' ''A'' two_users)) ''c1'' ''A''"
    using T by (rule conjunct1)
  have 3: "delivered_to ''c1'' (fst (snd (handleLeaveRoom ''c1'' ''A'' two_users))) = []"
    using T [THEN conjunct2, THEN conjunct2] by (rule conjunct1)
  have 4: "delivered_to ''c2'' (fst (snd (handleLeaveRoom ''c1'' ''A'' two_users))) =
       fst (snd (handleLeaveRoom ''c1'' ''A'' two_users))"
    by (rule T [THEN conjunct2, THEN conjunct2, THEN conjunct2, rule_format, of "''c2''",
                OF conjI [OF d j]])
  show ?thesis by (intro conjI h j 1 3 4)
qed

subsection \<open>joinRoom: repeating it\<close>


lemma holds_join_client_join: "holds_join (client_join c (RoomGroup r) s) c r"
  by (simp add: holds_join_def client_join_def)




lemma join_then_joined:
  assumes "user_sub s c = Some u"
  shows "user_sub (fst (handleJoinRoom env c r s)) c = Some u"
    and "holds_join (fst (handleJoinRoom env c r s)) c r"
    and "is_member (fst (handleJoinRoom env c r s)) u r"
  using assms
  by (simp_all add: join_state user_sub_def client_join_def holds_join_def is_member_def
                    membersOf_def update_conv' set_add_def)






subsection \<open>The handshake\<close>

lemma handleConnection_rejects:
  assumes "token = None \<or> token = Some [] \<or> (\<exists>t e. token = Some t \<and> jwt_verify env t = Inl e)"
  shows "handleConnection env c token s = client_disconnect c s"
  using assms by (auto simp: handleConnection_def split: option.splits sum.splits)

lemma handleConnection_accepts:
  assumes "t \<noteq> []" "jwt_verify env t = Inr u"
  shows "handleConnection env c (Some t) s =
           client_join c (UserGroup u) (s\<lparr>clientData := AList.update c u (clientData s)\<rparr>)"
  using assms by (simp add: handleConnection_def)

lemma client_disconnect_gone:
  "c \<notin> set (connected (client_disconnect c s))"
  "(c, g) \<notin> set (adapter (client_disconnect c s))"
  "clientData (client_disconnect c s) = clientData s"
  "roomMembers (client_disconnect c s) = roomMembers s"
  by (auto simp: client_disconnect_def)

text \<open>The other handlers leave the socket data and the set of live sockets alone.\<close>

lemma handleDisconnect_keeps:
  "clientData (fst (handleDisconnect c s)) = clientData s"
  "connected (fst (handleDisconnect c s)) = connected s"
  "adapter (fst (handleDisconnect c s)) = adapter s"
  by (simp_all add: handleDisconnect_def Let_def user_sub_def split: option.splits prod.splits)

lemma handleJoinRoom_keeps:
  "clientData (fst (handleJoinRoom env c r s)) = clientData s"
  "connected (fst (handleJoinRoom env c r s)) = connected s"
  by (simp_all add: handleJoinRoom_unfold Let_def user_sub_def client_join_def
               split: option.splits sum.splits)

lemma handleLeaveRoom_keeps:
  "clientData (fst (handleLeaveRoom c r s)) = clientData s"
  "connected (fst (handleLeaveRoom c r s)) = connected s"
  by (simp_all add: handleLeaveRoom_def Let_def user_sub_def client_leave_def
               split: option.splits)

lemma step_user_sub:
  assumes "user_sub (fst (step env cmd s)) c = Some u"
  shows "user_sub s c = Some u
       \<or> (\<exists>t. cmd = Connect c (Some t) \<and> t \<noteq> [] \<and> jwt_verify env t = Inr u)"
proof (cases cmd)
  case (Connect c' token)
  show ?thesis
  proof (cases "c' \<in> set (connected s)")
    case True
    with Connect assms show ?thesis by simp
  next
    case False
    let ?s0 = "s\<lparr>connected := connected s @ [c'],
                 clientData := AList.delete c' (clientData s),
                 adapter := filter (\<lambda>p. fst p \<noteq> c') (adapter s)\<rparr>"
    have st: "fst (step env cmd s) = handleConnection env c' token ?s0"
      using Connect False by simp
    show ?thesis
    proof (cases "token = None \<or> token = Some [] \<or> (\<exists>t e. token = Some t \<and> jwt_verify env t = Inl e)")
      case True
      then have "user_sub (fst (step env cmd s)) c = map_of (AList.delete c' (clientData s)) c"
        by (simp add: st handleConnection_rejects client_disconnect_def user_sub_def)
      with assms show ?thesis
        by (cases "c = c'") (simp_all add: delete_conv' user_sub_def)
    next
      case False
      then obtain t v where t: "token = Some t" "t \<noteq> []" "jwt_verify env t = Inr v"
        by (cases token; cases "jwt_verify env (the token)") auto
      then have "user_sub (fst (step env cmd s)) c =
                   (if c = c' then Some v else map_of (AList.delete c' (clientData s)) c)"
        by (simp add: st handleConnection_accepts user_sub_def client_join_def update_conv')
      with assms t Connect show ?thesis
        by (cases "c = c'") (simp_all add: delete_conv' user_sub_def)
    qed
  qed
next
  case (Disconnect c')
  with assms show ?thesis
    by (simp add: user_sub_def handleDisconnect_keeps client_disconnect_gone split: if_splits)
next
  case (JoinRoom c' r)
  with assms show ?thesis
    by (simp add: user_sub_def handleJoinRoom_keeps split: if_splits prod.splits)
       (metis fst_conv handleJoinRoom_keeps(1))
next
  case (LeaveRoom c' r)
  with assms show ?thesis
    by (simp add: user_sub_def split: if_splits prod.splits)
       (metis fst_conv handleLeaveRoom_keeps(1))
next
  case (SendMessage c' dto)
  with assms show ?thesis
    using send_never_raises [of env c' dto s] by (auto split: if_splits)
next
  case (UpdateMessage c' i t)
  with assms show ?thesis
    using update_never_raises [of env c' i t s] by (auto split: if_splits)
next
  case (DeleteMessage c' i)
  with assms show ?thesis
    using delete_never_raises [of env c' i s] by (auto split: if_splits)
next
  case (GetRoomMembers c' r)
  with assms show ?thesis
    using getRoomMembers_never_raises [of c' r s] by (auto split: if_splits)
qed


lemma step_keeps_identity_of_live_sockets:
  assumes "\<forall>c\<in>set (connected s). user_sub s c \<noteq> None"
  shows "\<forall>c\<in>set (connected (fst (step env cmd s))). user_sub (fst (step env cmd s)) c \<noteq> None"
proof (cases cmd)
  case (Connect c' token)
  show ?thesis
  proof (cases "c' \<in> set (connected s)")
    case True
    with Connect assms show ?thesis by simp
  next
    case False
    let ?s0 = "s\<lparr>connected := connected s @ [c'],
                 clientData := AList.delete c' (clientData s),
                 adapter := filter (\<lambda>p. fst p \<noteq> c') (adapter s)\<rparr>"
    have st: "fst (step env cmd s) = handleConnection env c' token ?s0"
      using Connect False by simp
    show ?thesis
    proof (cases "token = None \<or> token = Some [] \<or> (\<exists>t e. token = Some t \<and> jwt_verify env t = Inl e)")
      case True
      then have "fst (step env cmd s) = client_disconnect c' ?s0"
        by (simp add: st handleConnection_rejects)
      then show ?thesis using assms False
        by (auto simp: client_disconnect_def user_sub_def delete_conv')
    next
      case False
      then obtain t v where t: "token = Some t" "t \<noteq> []" "jwt_verify env t = Inr v"
        by (cases token; cases "jwt_verify env (the token)") auto
      then have "fst (step env cmd s) =
          client_join c' (UserGroup v) (?s0\<lparr>clientData := AList.update c' v (clientData ?s0)\<rparr>)"
        by (simp add: st handleConnection_accepts)
      then show ?thesis using assms
        by (auto simp: client_join_def user_sub_def update_conv' delete_conv')
    qed
  qed
next
  case (Disconnect c')
  with assms show ?thesis
    by (auto simp: user_sub_def handleDisconnect_keeps client_disconnect_def)
next
  case (JoinRoom c' r)
  have "fst (step env cmd s) = (if c' \<in> set (connected s) then fst (handleJoinRoom env c' r s) else s)"
    using JoinRoom by (simp split: prod.splits)
  with assms show ?thesis by (simp add: user_sub_def handleJoinRoom_keeps)
next
  case (LeaveRoom c' r)
  have "fst (step env cmd s) = (if c' \<in> set (connected s) then fst (handleLeaveRoom c' r s) else s)"
    using LeaveRoom by (simp split: prod.splits)
  with assms show ?thesis by (simp add: user_sub_def handleLeaveRoom_keeps)
next
  case (SendMessage c' dto)
  with assms show ?thesis
    using send_never_raises [of env c' dto s] by (auto split: if_splits)
next
  case (UpdateMessage c' i t)
  with assms show ?thesis
    using update_never_raises [of env c' i t s] by (auto split: if_splits)
next
  case (DeleteMessage c' i)
  with assms show ?thesis
    using delete_never_raises [of env c' i s] by (auto split: if_splits)
next
  case (GetRoomMembers c' r)
  with assms show ?thesis
    using getRoomMembers_never_raises [of c' r s] by (auto split: if_splits)
qed

lemma run_keeps_identity_of_live_sockets:
  "\<forall>c\<in>set (connected s). user_sub s c \<noteq> None \<Longrightarrow>
   \<forall>c\<in>set (connected (run tr s)). user_sub (run tr s) c \<noteq> None"
proof (induction tr arbitrary: s)
  case Nil
  then show ?case by simp
next
  case (Cons x tr)
  obtain env cmd where x: "x = (env, cmd)" by (cases x)
  show ?case
    unfolding x run.simps
    by (rule Cons.IH) (rule step_keeps_identity_of_live_sockets [OF Cons.prems])
qed

lemma run_user_sub:
  "user_sub (run tr s) c = Some u \<Longrightarrow>
   user_sub s c = Some u
   \<or> (\<exists>env t. (env, Connect c (Some t)) \<in> set tr \<and> t \<noteq> [] \<and> jwt_verify env t = Inr u)"
proof (induction tr arbitrary: s)
  case Nil
  then show ?case by simp
next
  case (Cons x tr)
  obtain env cmd where x: "x = (env, cmd)" by (cases x)
  from Cons.prems have "user_sub (run tr (fst (step env cmd s))) c = Some u"
    by (simp add: x)
  from Cons.IH [OF this] show ?case
  proof
    assume "user_sub (fst (step env cmd s)) c = Some u"
    from step_user_sub [OF this] show ?thesis unfolding x by auto
  next
    assume "\<exists>env t. (env, Connect c (Some t)) \<in> set tr \<and> t \<noteq> [] \<and> jwt_verify env t = Inr u"
    then show ?thesis by auto
  qed
qed

text \<open>
  Claim C8. A handshake that presents no token, an empty token or a token that
  \<^verbatim>\<open>jwtService.verify\<close> rejects ends the connection: the socket is no longer live, it
  is in no group and no identity is attached to it. And in every state reached from the
  initial one, each live socket carries an identity that \<^verbatim>\<open>verify\<close> returned for the
  non-empty token of that socket's own handshake.
\<close>

theorem no_socket_without_identity_is_admitted:
  "((token = None \<or> token = Some [] \<or> (\<exists>t e. token = Some t \<and> jwt_verify env t = Inl e)) \<longrightarrow>
      handleConnection env c token s = client_disconnect c s
      \<and> c \<notin> set (connected (handleConnection env c token s))
      \<and> (\<forall>g. (c, g) \<notin> set (adapter (handleConnection env c token s)))
      \<and> clientData (handleConnection env c token s) = clientData s
      \<and> (c \<notin> set (connected s) \<longrightarrow>
           c \<notin> set (connected (fst (step env (Connect c token) s)))
           \<and> user_sub (fst (step env (Connect c token) s)) c = None))
   \<and> (\<forall>c'\<in>set (connected (run tr init)).
        \<exists>u. user_sub (run tr init) c' = Some u
           \<and> (\<exists>env' t. (env', Connect c' (Some t)) \<in> set tr \<and> t \<noteq> [] \<and> jwt_verify env' t = Inr u))"
proof (intro conjI impI ballI)
  assume bad: "token = None \<or> token = Some [] \<or> (\<exists>t e. token = Some t \<and> jwt_verify env t = Inl e)"
  show rej: "handleConnection env c token s = client_disconnect c s"
    using bad by (rule handleConnection_rejects)
  show "c \<notin> set (connected (handleConnection env c token s))"
    by (simp add: rej client_disconnect_gone)
  show "\<forall>g. (c, g) \<notin> set (adapter (handleConnection env c token s))"
    by (simp add: rej client_disconnect_gone)
  show "clientData (handleConnection env c token s) = clientData s"
    by (simp add: rej client_disconnect_gone)
  assume fresh: "c \<notin> set (connected s)"
  show "c \<notin> set (connected (fst (step env (Connect c token) s)))"
    using fresh by (simp add: handleConnection_rejects [OF bad] client_disconnect_gone)
  show "user_sub (fst (step env (Connect c token) s)) c = None"
    using fresh
    by (simp add: handleConnection_rejects [OF bad] client_disconnect_gone user_sub_def delete_conv')
next
  fix c' assume live: "c' \<in> set (connected (run tr init))"
  have "\<forall>c\<in>set (connected init). user_sub init c \<noteq> None" by (simp add: init_def)
  from run_keeps_identity_of_live_sockets [OF this, of tr] live
  obtain u where u: "user_sub (run tr init) c' = Some u" by auto
  have "user_sub init c' \<noteq> Some u" by (simp add: init_def user_sub_def)
  with run_user_sub [OF u] u
  show "\<exists>u. user_sub (run tr init) c' = Some u
           \<and> (\<exists>env' t. (env', Connect c' (Some t)) \<in> set tr \<and> t \<noteq> [] \<and> jwt_verify env' t = Inr u)"
    by blast
qed

theorem no_socket_without_identity_is_admitted_witness:
  "jwt_verify answers ''bad'' = Inl (Error ''jwt malformed'') \<and> ''c1'' \<notin> set (connected init)
   \<and> handleConnection answers ''c1'' (Some ''bad'') init = client_disconnect ''c1'' init
   \<and> ''c1'' \<notin> set (connected (fst (step answers (Connect ''c1'' (Some ''bad'')) init)))
   \<and> user_sub (fst (step answers (Connect ''c1'' (Some ''bad'')) init)) ''c1'' = None
   \<and> connected (run handshakes init) = [''c3'']
   \<and> user_sub (run handshakes init) ''c3'' = Some ''u3''
   \<and> (\<exists>u. user_sub (run handshakes init) ''c3'' = Some u
        \<and> (\<exists>env' t. (env', Connect ''c3'' (Some t)) \<in> set handshakes \<and> t \<noteq> []
              \<and> jwt_verify env' t = Inr u))"
proof -
  have v: "jwt_verify answers ''bad'' = Inl (Error ''jwt malformed'')" by code_simp
  have fresh: "''c1'' \<notin> set (connected init)" by code_simp
  have live: "connected (run handshakes init) = [''c3'']" by code_simp
  have who: "user_sub (run handshakes init) ''c3'' = Some ''u3''" by code_simp
  have bad: "Some ''bad'' = None \<or> Some ''bad'' = Some [] \<or>
             (\<exists>t e. Some ''bad'' = Some t \<and> jwt_verify answers t = Inl e)"
    using v by blast
  note T = no_socket_without_identity_is_admitted
             [of "Some ''bad''" answers "''c1''" init handshakes]
  note R = T [THEN conjunct1, rule_format, OF bad]
  have 1: "handleConnection answers ''c1'' (Some ''bad'') init = client_disconnect ''c1'' init"
    by (rule R [THEN conjunct1])
  note S = R [THEN conjunct2, THEN conjunct2, THEN conjunct2, THEN conjunct2, rule_format, OF fresh]
  have 2: "''c1'' \<notin> set (connected (fst (step answers (Connect ''c1'' (Some ''bad'')) init)))"
    by (rule S [THEN conjunct1])
  have 3: "user_sub (fst (step answers (Connect ''c1'' (Some ''bad'')) init)) ''c1'' = None"
    by (rule S [THEN conjunct2])
  have in3: "''c3'' \<in> set (connected (run handshakes init))" by (simp add: live)
  have 4: "\<exists>u. user_sub (run handshakes init) ''c3'' = Some u
        \<and> (\<exists>env' t. (env', Connect ''c3'' (Some t)) \<in> set handshakes \<and> t \<noteq> []
              \<and> jwt_verify env' t = Inr u)"
    by (rule T [THEN conjunct2, rule_format, OF in3])
  show ?thesis by (intro conjI v fresh 1 2 3 live who 4)
qed

subsection \<open>Disconnect\<close>

lemma disconnect_rooms_count:
  assumes "n = ''roomMembers'' \<or> n = ''userLeft''"
  shows "count_for n r (snd (disconnect_rooms u s rm)) =
           length (filter (\<lambda>p. fst p = r \<and> u \<in> set (snd p)) rm)"
  using assms
  by (induction rm) (auto simp: count_for_def server_emit_def split: prod.splits)

lemma disconnect_rooms_count_other:
  assumes "n \<noteq> ''roomMembers''" "n \<noteq> ''userLeft''"
  shows "count_for n r (snd (disconnect_rooms u s rm)) = 0"
  using assms
  by (induction rm) (auto simp: count_for_def server_emit_def split: prod.splits)

lemma distinct_keys_count:
  "distinct (map fst rm) \<Longrightarrow>
   length (filter (\<lambda>p. fst p = r \<and> P (snd p)) rm) =
     (case map_of rm r of None \<Rightarrow> 0 | Some ms \<Rightarrow> if P ms then 1 else 0)"
proof (induction rm)
  case Nil
  then show ?case by simp
next
  case (Cons p rm)
  have "r \<notin> fst ` set rm \<Longrightarrow> filter (\<lambda>p. fst p = r \<and> P (snd p)) rm = []"
    by (auto simp: filter_empty_conv)
  with Cons show ?case
    by (cases p) (auto simp: map_of_eq_None_iff split: option.splits)
qed

lemma disconnect_rooms_events:
  "snd (disconnect_rooms u s rm) =
     concat (map (\<lambda>p. if u \<in> set (snd p)
                        then [server_emit (RoomGroup (fst p)) (RoomMembers (set_delete u (snd p))) s,
                              server_emit (RoomGroup (fst p)) (UserLeft u (fst p)) s]
                        else []) rm)"
  by (induction rm) (auto split: prod.splits)

lemma disconnect_rooms_emission:
  assumes "e \<in> set (snd (disconnect_rooms u s rm))"
  shows "\<exists>r ms. (r, ms) \<in> set rm \<and> u \<in> set ms
     \<and> target e = ToGroup (RoomGroup r) \<and> receivers e = in_group (RoomGroup r) s
     \<and> (event e = RoomMembers (set_delete u ms) \<or> event e = UserLeft u r)"
proof -
  from assms obtain p where p: "p \<in> set rm" "u \<in> set (snd p)"
      "e = server_emit (RoomGroup (fst p)) (RoomMembers (set_delete u (snd p))) s
       \<or> e = server_emit (RoomGroup (fst p)) (UserLeft u (fst p)) s"
    by (auto simp: disconnect_rooms_events split: if_splits)
  show ?thesis
  proof (intro exI conjI)
    show "(fst p, snd p) \<in> set rm" using p(1) by simp
    show "u \<in> set (snd p)" by (rule p(2))
    show "target e = ToGroup (RoomGroup (fst p))" using p(3) by (auto simp: server_emit_def)
    show "receivers e = in_group (RoomGroup (fst p)) s" using p(3) by (auto simp: server_emit_def)
    show "event e = RoomMembers (set_delete u (snd p)) \<or> event e = UserLeft u (fst p)"
      using p(3) by (auto simp: server_emit_def)
  qed
qed

lemma disconnect_rooms_keys: "map fst (fst (disconnect_rooms u s rm)) = map fst rm"
  by (induction rm) (auto split: prod.splits)

lemma disconnect_rooms_members:
  "map_of (fst (disconnect_rooms u s rm)) r = map_option (set_delete u) (map_of rm r)"
  by (induction rm) (auto simp: set_delete_def split: prod.splits)

lemma in_group_client_disconnect:
  "in_group g (client_disconnect c s) = removeAll c (in_group g s)"
proof -
  have "map fst (filter (\<lambda>p. snd p = g) (filter (\<lambda>p. fst p \<noteq> c) ad)) =
        removeAll c (map fst (filter (\<lambda>p. snd p = g) ad))" for ad :: "(conn \<times> group) list"
    by (induction ad) auto
  then show ?thesis by (simp add: in_group_def client_disconnect_def)
qed


lemma step_Disconnect:
  assumes "c \<in> set (connected s)" "user_sub s c = Some u" "u \<noteq> []"
  shows "step env (Disconnect c) s =
    ((client_disconnect c s)
       \<lparr>roomMembers := fst (disconnect_rooms u (client_disconnect c s) (roomMembers s))\<rparr>,
     snd (disconnect_rooms u (client_disconnect c s) (roomMembers s)))"
  using assms
  by (simp add: handleDisconnect_def user_sub_def client_disconnect_def split: prod.splits)

lemma is_member_map_of:
  "is_member s u r = (case map_of (roomMembers s) r of None \<Rightarrow> False | Some ms \<Rightarrow> u \<in> set ms)"
  by (simp add: is_member_def membersOf_def split: option.splits)

text \<open>
  Claim C2, as stated, fails, in both directions. After \<open>two_tabs\<close> the socket c1 is
  joined to room A, and its disconnection emits nothing for A, because the leave of the
  user's other socket has already taken the user out of A's member set. After
  \<open>other_tab\<close> the socket c1 has joined no room, and its disconnection announces that the
  user left room B, which only the user's other socket had joined.
\<close>

theorem disconnect_per_joined_room_counterexample:
  "joined_rooms (run two_tabs init) ''c1'' = [''A'']
   \<and> snd (step answers (Disconnect ''c1'') (run two_tabs init)) = []
   \<and> joined_rooms (run other_tab init) ''c1'' = []
   \<and> snd (step answers (Disconnect ''c1'') (run other_tab init)) =
       [Emission (ToGroup (RoomGroup ''B'')) (RoomMembers []) [''c2''],
        Emission (ToGroup (RoomGroup ''B'')) (UserLeft ''u1'' ''B'') [''c2'']]"
  by code_simp

text \<open>
  Claim C2, amended. When a live socket with a non-empty user id disconnects, the
  gateway emits, for each room whose member set contains that user id (whether or not this
  socket had joined it), exactly one \<open>roomMembers\<close> event carrying the member set without
  the user and exactly one \<open>userLeft\<close> event, both to that room's broadcast group as it is
  without the closing socket; it emits nothing for any other room, and afterwards the user
  is in no member set. The keys of the table are distinct, as in every \<^verbatim>\<open>Map\<close>.
\<close>

theorem disconnect_announces_once_per_member_room:
  assumes "c \<in> set (connected s)" and "user_sub s c = Some u" and "u \<noteq> []"
    and "distinct (map fst (roomMembers s))"
  shows "(\<forall>r. count_for ''roomMembers'' r (snd (step env (Disconnect c) s)) =
                (if is_member s u r then 1 else 0)
            \<and> count_for ''userLeft'' r (snd (step env (Disconnect c) s)) =
                (if is_member s u r then 1 else 0))
       \<and> (\<forall>e\<in>set (snd (step env (Disconnect c) s)).
            \<exists>r. is_member s u r \<and> target e = ToGroup (RoomGroup r)
              \<and> receivers e = removeAll c (in_group (RoomGroup r) s)
              \<and> c \<notin> set (receivers e)
              \<and> (event e = RoomMembers (set_delete u (membersOf s r)) \<or> event e = UserLeft u r))
       \<and> (\<forall>r. \<not> is_member (fst (step env (Disconnect c) s)) u r)"
proof (intro conjI allI ballI)
  let ?d = "client_disconnect c s"
  note st = step_Disconnect [OF assms(1,2,3), of env]
  fix r
  have cnt: "length (filter (\<lambda>p. fst p = r \<and> u \<in> set (snd p)) (roomMembers s)) =
               (if is_member s u r then 1 else 0)"
    using distinct_keys_count [OF assms(4), of r "\<lambda>ms. u \<in> set ms"]
    by (simp add: is_member_map_of split: option.splits)
  show "count_for ''roomMembers'' r (snd (step env (Disconnect c) s)) =
          (if is_member s u r then 1 else 0)"
    unfolding st by (simp add: disconnect_rooms_count cnt)
  show "count_for ''userLeft'' r (snd (step env (Disconnect c) s)) =
          (if is_member s u r then 1 else 0)"
    unfolding st by (simp add: disconnect_rooms_count cnt)
  show "\<not> is_member (fst (step env (Disconnect c) s)) u r"
    unfolding st
    by (simp add: is_member_map_of disconnect_rooms_members set_delete_def split: option.splits)
next
  fix e assume "e \<in> set (snd (step env (Disconnect c) s))"
  then have "e \<in> set (snd (disconnect_rooms u (client_disconnect c s) (roomMembers s)))"
    unfolding step_Disconnect [OF assms(1,2,3)] by simp
  from disconnect_rooms_emission [OF this]
  obtain r ms where e: "(r, ms) \<in> set (roomMembers s)" "u \<in> set ms"
      "target e = ToGroup (RoomGroup r)"
      "receivers e = in_group (RoomGroup r) (client_disconnect c s)"
      "event e = RoomMembers (set_delete u ms) \<or> event e = UserLeft u r"
    by blast
  have m: "map_of (roomMembers s) r = Some ms"
    using assms(4) e(1) by simp
  then have "is_member s u r" "membersOf s r = ms"
    using e(2) by (simp_all add: is_member_map_of membersOf_def)
  then show "\<exists>r. is_member s u r \<and> target e = ToGroup (RoomGroup r)
              \<and> receivers e = removeAll c (in_group (RoomGroup r) s)
              \<and> c \<notin> set (receivers e)
              \<and> (event e = RoomMembers (set_delete u (membersOf s r)) \<or> event e = UserLeft u r)"
    using e(3,4,5) by (auto simp: in_group_client_disconnect)
qed

theorem disconnect_announces_once_per_member_room_witness:
  "''c1'' \<in> set (connected two_users) \<and> user_sub two_users ''c1'' = Some ''u1'' \<and> ''u1'' \<noteq> []
   \<and> distinct (map fst (roomMembers two_users)) \<and> is_member two_users ''u1'' ''A''
   \<and> \<not> is_member two_users ''u1'' ''B''
   \<and> count_for ''roomMembers'' ''A'' (snd (step answers (Disconnect ''c1'') two_users)) = 1
   \<and> count_for ''userLeft'' ''A'' (snd (step answers (Disconnect ''c1'') two_users)) = 1
   \<and> count_for ''userLeft'' ''B'' (snd (step answers (Disconnect ''c1'') two_users)) = 0
   \<and> \<not> is_member (fst (step answers (Disconnect ''c1'') two_users)) ''u1'' ''A''
   \<and> snd (step answers (Disconnect ''c1'') two_users) =
       [Emission (ToGroup (RoomGroup ''A'')) (RoomMembers [''u2'']) [''c2''],
        Emission (ToGroup (RoomGroup ''A'')) (UserLeft ''u1'' ''A'') [''c2'']]"
proof -
  have l: "''c1'' \<in> set (connected two_users)" by code_simp
  have h: "user_sub two_users ''c1'' = Some ''u1''" by code_simp
  have n: "''u1'' \<noteq> []" by simp
  have d: "distinct (map fst (roomMembers two_users))" by code_simp
  have a: "is_member two_users ''u1'' ''A''" by code_simp
  have b: "\<not> is_member two_users ''u1'' ''B''" by code_simp
  have evs: "snd (step answers (Disconnect ''c1'') two_users) =
       [Emission (ToGroup (RoomGroup ''A'')) (RoomMembers [''u2'']) [''c2''],
        Emission (ToGroup (RoomGroup ''A'')) (UserLeft ''u1'' ''A'') [''c2'']]" by code_simp
  note T = disconnect_announces_once_per_member_room [OF l h n d, of answers]
  note A = T [THEN conjunct1, rule_format, of "''A''"]
  note B = T [THEN conjunct1, rule_format, of "''B''"]
  have 1: "count_for ''roomMembers'' ''A'' (snd (step answers (Disconnect ''c1'') two_users)) = 1"
    using A [THEN conjunct1] a by (simp only: if_True)
  have 2: "count_for ''userLeft'' ''A'' (snd (step answers (Disconnect ''c1'') two_users)) = 1"
    using A [THEN conjunct2] a by (simp only: if_True)
  have 3: "count_for ''userLeft'' ''B'' (snd (step answers (Disconnect ''c1'') two_users)) = 0"
    using B [THEN conjunct2] b by (simp only: if_False)
  have 4: "\<not> is_member (fst (step answers (Disconnect ''c1'') two_users)) ''u1'' ''A''"
    by (rule T [THEN conjunct2, THEN conjunct2, rule_format])
  show ?thesis by (intro conjI l h n d a b 1 2 3 4 evs)
qed

subsection \<open>Presence of a user with several sockets\<close>

lemma run_append: "run (tr @ tr') s = run tr' (run tr s)"
  by (induction tr arbitrary: s) auto

lemma presence_command_cong:
  "clientData s' = clientData s \<Longrightarrow> connected s' = connected s \<Longrightarrow>
   presence_command s' u r cmd = presence_command s u r cmd"
  by (cases cmd) (simp_all add: user_sub_def)

lemma presence_step_keeps:
  assumes "presence_command s u r cmd"
  shows "clientData (fst (step env cmd s)) = clientData s"
    and "connected (fst (step env cmd s)) = connected s"
  using assms
  by (cases cmd; simp add: handleJoinRoom_keeps handleLeaveRoom_keeps split: prod.splits;
      metis fst_conv handleJoinRoom_keeps handleLeaveRoom_keeps)+

lemma presence_run_keeps:
  "\<forall>x\<in>set tr. presence_command s u r (snd x) \<Longrightarrow>
   clientData (run tr s) = clientData s \<and> connected (run tr s) = connected s"
proof (induction tr arbitrary: s)
  case Nil
  then show ?case by simp
next
  case (Cons x tr)
  obtain env cmd where x: "x = (env, cmd)" by (cases x)
  let ?s1 = "fst (step env cmd s)"
  have p: "presence_command s u r cmd" using Cons.prems by (simp add: x)
  note k = presence_step_keeps [OF p, of env]
  have "\<forall>y\<in>set tr. presence_command ?s1 u r (snd y)"
    using Cons.prems by (simp add: presence_command_cong [OF k])
  from Cons.IH [OF this] show ?case by (simp add: x k)
qed

lemma member_after_leave:
  assumes "user_sub s c = Some u"
  shows "\<not> is_member (fst (handleLeaveRoom c r s)) u r"
  using assms
  by (simp add: leave_state is_member_def membersOf_def has_room_def update_conv' set_delete_def
           split: option.splits)

lemma user_holds_joinI:
  "holds_join s c r \<Longrightarrow> user_sub s c = Some u \<Longrightarrow> user_holds_join s u r"
  by (auto simp: user_holds_join_def holds_join_def list_ex_iff intro!: bexI [of _ "(c, RoomGroup r)"])

text \<open>
  Claim C1, as stated, fails: after two sockets of user u1 have joined room A and one of
  them has left, the other still holds its join, and the member set of A no longer contains u1.
\<close>

theorem presence_counterexample:
  "user_sub (run two_tabs init) ''c1'' = Some ''u1''
   \<and> holds_join (run two_tabs init) ''c1'' ''A''
   \<and> user_holds_join (run two_tabs init) ''u1'' ''A''
   \<and> \<not> is_member (run two_tabs init) ''u1'' ''A''"
  by code_simp

text \<open>
  Claim C1, amended. A leaveRoom takes the user id out of the room's member set whether
  or not another socket of the user is still joined, and a joinRoom puts it in (also when the
  history cannot be read). So after any non-empty sequence of joinRoom and leaveRoom commands
  for one room, sent by live sockets of the same user, the member set contains the user
  exactly when the last command was a joinRoom; and when it contains the user, one of the
  user's sockets holds a join.
\<close>

theorem membership_follows_last_command:
  assumes "tr \<noteq> []" and "\<forall>x\<in>set tr. presence_command s u r (snd x)"
  shows "(is_member (run tr s) u r \<longleftrightarrow> is_join (snd (last tr)))
       \<and> (is_member (run tr s) u r \<longrightarrow> user_holds_join (run tr s) u r)"
proof -
  obtain env cmd where l: "last tr = (env, cmd)" by (cases "last tr")
  let ?s1 = "run (butlast tr) s"
  have tr: "tr = butlast tr @ [(env, cmd)]"
    using assms(1) l by (metis append_butlast_last_id)
  have fin: "run tr s = fst (step env cmd ?s1)"
    by (subst tr) (simp add: run_append)
  have "\<forall>x\<in>set (butlast tr). presence_command s u r (snd x)"
    using assms(2) by (auto dest: in_set_butlastD)
  from presence_run_keeps [OF this]
  have k: "clientData ?s1 = clientData s" "connected ?s1 = connected s" by simp_all
  have "presence_command s u r cmd"
    using assms(1,2) l by (metis last_in_set snd_conv)
  then have p: "presence_command ?s1 u r cmd"
    by (simp add: presence_command_cong [OF k])
  show ?thesis
  proof (cases cmd)
    case (JoinRoom c r')
    with p have c: "r' = r" "c \<in> set (connected ?s1)" "user_sub ?s1 c = Some u" by simp_all
    have st: "run tr s = fst (handleJoinRoom env c r ?s1)"
      using c JoinRoom by (simp add: fin split: prod.splits)
    show ?thesis
      using join_then_joined [OF c(3), of env r] JoinRoom l
      by (simp add: st user_holds_joinI)
  next
    case (LeaveRoom c r')
    with p have c: "r' = r" "c \<in> set (connected ?s1)" "user_sub ?s1 c = Some u" by simp_all
    have st: "run tr s = fst (handleLeaveRoom c r ?s1)"
      using c LeaveRoom by (simp add: fin split: prod.splits)
    show ?thesis
      using member_after_leave [OF c(3), of r] LeaveRoom l by (simp add: st)
  qed (use p in simp_all)
qed

theorem membership_follows_last_command_witness:
  "presence_trace \<noteq> [] \<and> butlast presence_trace \<noteq> []
   \<and> \<not> is_join (snd (last presence_trace))
   \<and> \<not> is_member (run presence_trace two_sockets) ''u1'' ''A''
   \<and> is_join (snd (last (butlast presence_trace)))
   \<and> is_member (run (butlast presence_trace) two_sockets) ''u1'' ''A''
   \<and> user_holds_join (run (butlast presence_trace) two_sockets) ''u1'' ''A''"
proof -
  have ne: "presence_trace \<noteq> []" by (simp add: presence_trace_def)
  have ne': "butlast presence_trace \<noteq> []" by (simp add: presence_trace_def)
  have all: "\<forall>x\<in>set presence_trace. presence_command two_sockets ''u1'' ''A'' (snd x)"
    by code_simp
  have all': "\<forall>x\<in>set (butlast presence_trace). presence_command two_sockets ''u1'' ''A'' (snd x)"
    using all by (auto dest: in_set_butlastD)
  have lv: "\<not> is_join (snd (last presence_trace))" by (simp add: presence_trace_def)
  have jn: "is_join (snd (last (butlast presence_trace)))" by (simp add: presence_trace_def)
  note L = membership_follows_last_command [OF ne all]
  note J = membership_follows_last_command [OF ne' all']
  have 1: "\<not> is_member (run presence_trace two_sockets) ''u1'' ''A''"
    using L [THEN conjunct1] lv by (rule ssubst)
  have 2: "is_member (run (butlast presence_trace) two_sockets) ''u1'' ''A''"
    using J [THEN conjunct1] jn by (rule ssubst)
  have 3: "user_holds_join (run (butlast presence_trace) two_sockets) ''u1'' ''A''"
    by (rule J [THEN conjunct2, rule_format, OF 2])
  show ?thesis by (intro conjI ne ne' lv 1 jn 2 3)
qed

subsection \<open>The keys of the membership table\<close>

text \<open>
  No handler makes a second entry for a room: the keys of the table are distinct in every
  state reached from the initial one.
\<close>

lemma handleConnection_roomMembers:
  "roomMembers (handleConnection env c token s) = roomMembers s"
  by (simp add: handleConnection_def client_disconnect_def client_join_def
           split: option.splits sum.splits)

lemma handleJoinRoom_rooms_distinct:
  "distinct (map fst (roomMembers s)) \<Longrightarrow>
   distinct (map fst (roomMembers (fst (handleJoinRoom env c r s))))"
  by (cases "user_sub s c")
     (simp_all add: join_state distinct_update, simp add: handleJoinRoom_unfold Let_def)

lemma handleLeaveRoom_rooms_distinct:
  "distinct (map fst (roomMembers s)) \<Longrightarrow>
   distinct (map fst (roomMembers (fst (handleLeaveRoom c r s))))"
  by (cases "user_sub s c")
     (simp_all add: leave_state distinct_update, simp add: handleLeaveRoom_def Let_def)

lemma handleDisconnect_rooms_distinct:
  "distinct (map fst (roomMembers s)) \<Longrightarrow>
   distinct (map fst (roomMembers (fst (handleDisconnect c s))))"
  by (simp add: handleDisconnect_def disconnect_rooms_keys [symmetric] split: option.splits prod.splits)
     (metis disconnect_rooms_keys fst_conv)

lemma step_keeps_rooms_distinct:
  assumes "distinct (map fst (roomMembers s))"
  shows "distinct (map fst (roomMembers (fst (step env cmd s))))"
proof (cases cmd)
  case (Connect c token)
  with assms show ?thesis by (simp add: handleConnection_roomMembers)
next
  case (Disconnect c)
  with assms show ?thesis
    using handleDisconnect_rooms_distinct [of "client_disconnect c s" c]
    by (simp add: client_disconnect_gone)
next
  case (JoinRoom c r)
  with assms show ?thesis
    using handleJoinRoom_rooms_distinct [OF assms, of env c r] by (auto split: prod.splits)
next
  case (LeaveRoom c r)
  with assms show ?thesis
    using handleLeaveRoom_rooms_distinct [OF assms, of c r] by (auto split: prod.splits)
next
  case (SendMessage c dto)
  with assms show ?thesis
    using send_never_raises [of env c dto s] by (auto split: if_splits)
next
  case (UpdateMessage c i t)
  with assms show ?thesis
    using update_never_raises [of env c i t s] by (auto split: if_splits)
next
  case (DeleteMessage c i)
  with assms show ?thesis
    using delete_never_raises [of env c i s] by (auto split: if_splits)
next
  case (GetRoomMembers c r)
  with assms show ?thesis
    using getRoomMembers_never_raises [of c r s] by (auto split: if_splits)
qed

lemma reachable_rooms_distinct: "distinct (map fst (roomMembers (run tr init)))"
proof -
  have "distinct (map fst (roomMembers s)) \<Longrightarrow> distinct (map fst (roomMembers (run tr s)))" for s
  proof (induction tr arbitrary: s)
    case Nil
    then show ?case by simp
  next
    case (Cons x tr)
    obtain env cmd where x: "x = (env, cmd)" by (cases x)
    show ?case unfolding x run.simps
      by (rule Cons.IH) (rule step_keeps_rooms_distinct [OF Cons.prems])
  qed
  then show ?thesis by (simp add: init_def)
qed

subsection \<open>The member sets\<close>

text \<open>
  No handler puts a user into a member set twice: in every state reached from the initial
  one, each member set is without repetition.
\<close>

lemma update_keeps_distinct_sets:
  "list_all (\<lambda>p. distinct (snd p)) al \<Longrightarrow> distinct v \<Longrightarrow>
   list_all (\<lambda>p. distinct (snd p)) (AList.update k v al)"
  by (induction al) auto

lemma membersOf_distinct: "sets_distinct s \<Longrightarrow> distinct (membersOf s r)"
  by (auto simp: sets_distinct_def membersOf_def list_all_iff split: option.splits
           dest!: map_of_SomeD)

lemma set_add_distinct: "distinct xs \<Longrightarrow> distinct (set_add x xs)"
  by (simp add: set_add_def)

lemma handleJoinRoom_sets_distinct:
  assumes "sets_distinct s"
  shows "sets_distinct (fst (handleJoinRoom env c r s))"
proof (cases "user_sub s c")
  case None
  then show ?thesis using assms
    by (simp add: handleJoinRoom_unfold Let_def sets_distinct_def)
next
  case (Some u)
  show ?thesis
    using assms membersOf_distinct [OF assms, of r]
    by (simp add: join_state [OF Some] sets_distinct_def update_keeps_distinct_sets set_add_distinct)
qed

lemma handleLeaveRoom_sets_distinct:
  assumes "sets_distinct s"
  shows "sets_distinct (fst (handleLeaveRoom c r s))"
proof (cases "user_sub s c")
  case None
  then show ?thesis using assms
    by (simp add: handleLeaveRoom_def Let_def sets_distinct_def)
next
  case (Some u)
  show ?thesis
    using assms membersOf_distinct [OF assms, of r]
    by (simp add: leave_state [OF Some] sets_distinct_def update_keeps_distinct_sets set_delete_def
                  distinct_removeAll)
qed

lemma disconnect_rooms_sets_distinct:
  "list_all (\<lambda>p. distinct (snd p)) rm \<Longrightarrow>
   list_all (\<lambda>p. distinct (snd p)) (fst (disconnect_rooms u s rm))"
  by (induction rm) (auto simp: set_delete_def distinct_removeAll split: prod.splits)

lemma handleDisconnect_sets_distinct:
  "sets_distinct s \<Longrightarrow> sets_distinct (fst (handleDisconnect c s))"
  using disconnect_rooms_sets_distinct [of "roomMembers s" _ s]
  by (auto simp: handleDisconnect_def sets_distinct_def split: option.splits prod.splits)
     (metis fst_conv)

lemma step_keeps_sets_distinct:
  assumes "sets_distinct s"
  shows "sets_distinct (fst (step env cmd s))"
proof (cases cmd)
  case (Connect c token)
  with assms show ?thesis by (simp add: sets_distinct_def handleConnection_roomMembers)
next
  case (Disconnect c)
  have "sets_distinct (client_disconnect c s)"
    using assms by (simp add: sets_distinct_def client_disconnect_gone)
  from handleDisconnect_sets_distinct [OF this, of c] Disconnect assms
  show ?thesis by simp
next
  case (JoinRoom c r)
  with assms show ?thesis
    using handleJoinRoom_sets_distinct [OF assms, of env c r] by (auto split: prod.splits)
next
  case (LeaveRoom c r)
  with assms show ?thesis
    using handleLeaveRoom_sets_distinct [OF assms, of c r] by (auto split: prod.splits)
next
  case (SendMessage c dto)
  with assms show ?thesis
    using send_never_raises [of env c dto s] by (auto split: if_splits)
next
  case (UpdateMessage c i t)
  with assms show ?thesis
    using update_never_raises [of env c i t s] by (auto split: if_splits)
next
  case (DeleteMessage c i)
  with assms show ?thesis
    using delete_never_raises [of env c i s] by (auto split: if_splits)
next
  case (GetRoomMembers c r)
  with assms show ?thesis
    using getRoomMembers_never_raises [of c r s] by (auto split: if_splits)
qed

lemma reachable_member_sets_distinct: "distinct (membersOf (run tr init) r)"
proof -
  have "sets_distinct s \<Longrightarrow> sets_distinct (run tr s)" for s
  proof (induction tr arbitrary: s)
    case Nil
    then show ?case by simp
  next
    case (Cons x tr)
    obtain env cmd where x: "x = (env, cmd)" by (cases x)
    show ?case unfolding x run.simps
      by (rule Cons.IH) (rule step_keeps_sets_distinct [OF Cons.prems])
  qed
  then have "sets_distinct (run tr init)" by (simp add: init_def sets_distinct_def)
  then show ?thesis by (rule membersOf_distinct)
qed

end
